theory Spec2Isabelle
  imports Main "HOL-Library.Word"
begin

unbundle bit_operations_syntax

section \<open>Protocol constants and buffers\<close>

text \<open>
  The filter announces \<open>RCAP_TYPE_CONTIGUOUS_INPUT\<close> (\<open>getCapabilities\<close>), so every
  buffer it receives is one contiguous segment: a \<open>GWBUF\<close> is the list of its bytes,
  \<open>GWBUF_LENGTH\<close> is \<open>length\<close> and \<open>GWBUF_DATA(q)[i]\<close> is \<open>q ! i\<close>.
\<close>

type_synonym GWBUF = "8 word list"

definition MYSQL_COM_QUIT :: "8 word" where "MYSQL_COM_QUIT = 0x01"
definition MYSQL_COM_INITDB :: "8 word" where "MYSQL_COM_INITDB = 0x02"
definition MYSQL_COM_FIELD_LIST :: "8 word" where "MYSQL_COM_FIELD_LIST = 0x04"
definition MYSQL_COM_CHANGE_USER :: "8 word" where "MYSQL_COM_CHANGE_USER = 0x11"
definition MYSQL_COM_STMT_PREPARE :: "8 word" where "MYSQL_COM_STMT_PREPARE = 0x16"
definition MYSQL_COM_STMT_EXECUTE :: "8 word" where "MYSQL_COM_STMT_EXECUTE = 0x17"
definition MYSQL_COM_STMT_SEND_LONG_DATA :: "8 word" where "MYSQL_COM_STMT_SEND_LONG_DATA = 0x18"
definition MYSQL_COM_STMT_CLOSE :: "8 word" where "MYSQL_COM_STMT_CLOSE = 0x19"
definition MYSQL_COM_STMT_RESET :: "8 word" where "MYSQL_COM_STMT_RESET = 0x1a"
definition MYSQL_COM_CONNECT :: "8 word" where "MYSQL_COM_CONNECT = 0x1b"

definition PARENT :: nat where "PARENT = 0"
definition CHILD :: nat where "CHILD = 1"

definition required_packets :: "8 word list" where
  "required_packets =
     [MYSQL_COM_QUIT, MYSQL_COM_INITDB, MYSQL_COM_CHANGE_USER, MYSQL_COM_STMT_PREPARE,
      MYSQL_COM_STMT_EXECUTE, MYSQL_COM_STMT_SEND_LONG_DATA, MYSQL_COM_STMT_CLOSE,
      MYSQL_COM_STMT_RESET, MYSQL_COM_CONNECT, 0]"

lemmas command_defs =
  MYSQL_COM_QUIT_def MYSQL_COM_INITDB_def MYSQL_COM_FIELD_LIST_def MYSQL_COM_CHANGE_USER_def
  MYSQL_COM_STMT_PREPARE_def MYSQL_COM_STMT_EXECUTE_def MYSQL_COM_STMT_SEND_LONG_DATA_def
  MYSQL_COM_STMT_CLOSE_def MYSQL_COM_STMT_RESET_def MYSQL_COM_CONNECT_def

section \<open>The filter instance\<close>

text \<open>
  A compiled \<open>regex_t\<close> is the function \<open>regexec\<close> computes on it: the status for a
  subject string, \<open>0\<close> for a match. The regex engine itself is a collaborator.
\<close>

type_synonym regex_t = "string \<Rightarrow> int"

definition regexec :: "regex_t \<Rightarrow> string \<Rightarrow> int" where
  "regexec preg subject = preg subject"

text \<open>Services, sessions and DCBs live in the proxy's memory and are named by address.\<close>

type_synonym addr = nat

record TEE_INSTANCE =
  service :: "addr option"
  source :: "string option"
  userName :: "string option"
  match :: "string option"
  re :: regex_t
  nomatch :: "string option"
  nore :: regex_t

section \<open>The match engine\<close>

text \<open>
  The loop \<open>for (i = 0; required_packets[i]; i++)\<close> of \<open>packet_is_required\<close>: it stops
  at the terminating zero of the table and answers 1 at the first equal entry.
\<close>

fun required_scan :: "8 word \<Rightarrow> 8 word list \<Rightarrow> int" where
  "required_scan c [] = 0"
| "required_scan c (r # rs) =
     (if r = 0 then 0 else if c = r then 1 else required_scan c rs)"

definition packet_is_required :: "GWBUF \<Rightarrow> int" where
  "packet_is_required queue =
     (if length queue > 4 then required_scan (queue ! 4) required_packets else 0)"

text \<open>
  Modelled from the spec: \<open>gwbuf_clone_all\<close> belongs to the buffer abstraction, which
  is not part of this file; it is the full independent copy of the buffer. In a model of
  values, the copy of a byte list is that byte list.
\<close>

definition gwbuf_clone_all :: "GWBUF \<Rightarrow> GWBUF option" where
  "gwbuf_clone_all buffer = Some buffer"

text \<open>
  \<open>clone_query\<close>. The SQL extraction \<open>modutil_get_SQL\<close> belongs to the buffer
  abstraction and is a parameter; \<open>None\<close> is its \<open>NULL\<close>. The session argument
  of the source is not used by the function and is left out.
\<close>

definition clone_query ::
  "(GWBUF \<Rightarrow> string option) \<Rightarrow> TEE_INSTANCE \<Rightarrow> GWBUF \<Rightarrow> GWBUF option" where
  "clone_query modutil_get_SQL my_instance buffer =
     (if (match my_instance = None \<and> nomatch my_instance = None)
         \<or> packet_is_required buffer \<noteq> 0
      then gwbuf_clone_all buffer
      else (case modutil_get_SQL buffer of
              None \<Rightarrow> None
            | Some ptr \<Rightarrow>
                if (match my_instance \<noteq> None \<and> regexec (re my_instance) ptr = 0)
                   \<or> (nomatch my_instance \<noteq> None \<and> regexec (nore my_instance) ptr \<noteq> 0)
                then gwbuf_clone_all buffer
                else None))"

section \<open>Services, sessions and the world\<close>

text \<open>
  The session states and the DCB state this file names; the other values of the two
  enumerations, which the file never tests for, are one further value each.
\<close>

datatype session_state_t =
    SESSION_STATE_ROUTER_READY
  | SESSION_STATE_STOPPING
  | SESSION_STATE_TO_BE_FREED
  | SESSION_STATE_FREE
  | SESSION_STATE_other

datatype dcb_state_t =
    DCB_STATE_POLLING
  | DCB_STATE_other

text \<open>
  The fields of \<open>SESSION\<close> the filter reads or writes. \<open>ses_remote\<close> and \<open>ses_user\<close>
  are what \<open>session_get_remote\<close> and \<open>session_getUser\<close> answer for the session
  (\<open>None\<close> for \<open>NULL\<close>).
\<close>

record SESSION =
  state :: session_state_t
  refcount :: int
  ses_client_dcb :: "addr option"
  ses_service :: addr
  router_session :: addr
  ses_remote :: "string option"
  ses_user :: "string option"

text \<open>
  A \<open>FILTER_DEF\<close> names its module and, once the filter is created, points to the
  instance; for a tee filter that is a \<open>TEE_INSTANCE\<close>. A \<open>SERVICE\<close> has a name and
  its filters (\<open>n_filters\<close> is the length of the list).
\<close>

record FILTER_DEF =
  module :: string
  filter_obj :: "TEE_INSTANCE option"

record SERVICE =
  name :: string
  filters :: "FILTER_DEF list"

text \<open>
  What the filter asks of its collaborators is recorded, in order, in a trace: the two
  kinds of spinlock, the router hooks of a branch session, the release of memory, the
  writes to a DCB and the queries routed into a branch session. The last two events are
  for the neighbours in the filter chain, to record that they were called.
\<close>

datatype lock = orphanLock | ses_lock addr

datatype event =
    spinlock_acquire lock
  | spinlock_release lock
  | router_closeSession addr
  | router_freeSession addr
  | MXS_FREE_session addr
  | MXS_FREE_tee_session
  | session_put_ref addr
  | dcb_close addr
  | dcb_write_err addr int int int string string
  | SESSION_ROUTE_QUERY addr GWBUF
  | gwbuf_free GWBUF
  | filter_free addr
  | down_routeQuery GWBUF
  | up_clientReply GWBUF

text \<open>
  The world outside one filter session: the configured services, the memory of the
  sessions and DCBs, the process-wide orphan registry \<open>allOrphans\<close> (the session of each
  node, head first) and the trace.
\<close>

record world =
  services :: "(addr \<times> SERVICE) list"
  sessions :: "addr \<Rightarrow> SESSION"
  dcb_state :: "addr \<Rightarrow> dcb_state_t"
  allOrphans :: "addr list"
  trace :: "event list"

definition emit :: "event list \<Rightarrow> world \<Rightarrow> world" where
  "emit es w = w\<lparr>trace := trace w @ es\<rparr>"

definition set_session_state :: "addr \<Rightarrow> session_state_t \<Rightarrow> world \<Rightarrow> world" where
  "set_session_state a st w = w\<lparr>sessions := (sessions w)(a := (sessions w a)\<lparr>state := st\<rparr>)\<rparr>"

text \<open>
  The links to the neighbours in the filter chain: \<open>routeQuery\<close> of the downstream
  link and \<open>clientReply\<close> of the upstream link are functions of the collaborator; they
  return a status and may change the world. A link that was never set is \<open>None\<close>.
\<close>

type_synonym DOWNSTREAM = "GWBUF \<Rightarrow> world \<Rightarrow> int \<times> world"
type_synonym UPSTREAM = "GWBUF \<Rightarrow> world \<Rightarrow> int \<times> world"

record TEE_SESSION =
  down :: "DOWNSTREAM option"
  up :: "UPSTREAM option"
  dummy_filterdef :: "addr option"
  active :: int
  use_ok :: bool
  client_multistatement :: int
  multipacket :: "bool list"
  command :: "8 word"
  waiting :: "bool list"
  eof :: "int list"
  replies :: "int list"
  reply_packets :: "int list"
  branch_dcb :: "addr option"
  branch_session :: "addr option"
  my_instance_of :: TEE_INSTANCE
  n_duped :: int
  n_rejected :: int
  residual :: int
  tee_replybuf :: "GWBUF option"
  tee_partials :: "GWBUF option list"
  queue :: "GWBUF option"
  client_dcb :: "addr option"

section \<open>The orphan registry\<close>

text \<open>
  \<open>create_orphan\<close>: a new node is pushed at the head of \<open>allOrphans\<close> under the lock;
  when \<open>MXS_MALLOC\<close> fails (\<open>malloc_ok\<close> false) nothing happens.
\<close>

definition create_orphan :: "bool \<Rightarrow> addr \<Rightarrow> world \<Rightarrow> world" where
  "create_orphan malloc_ok ses w =
     (if malloc_ok
      then emit [spinlock_release orphanLock]
             ((emit [spinlock_acquire orphanLock] w)\<lparr>allOrphans := ses # allOrphans w\<rparr>)
      else w)"

text \<open>
  The scan of \<open>orphan_free\<close>, one node per iteration. \<open>kept\<close> are the nodes already
  visited and still linked, \<open>p # rest\<close> the nodes from \<open>ptr\<close> on, so that \<open>allOrphans\<close>
  is \<open>kept @ p # rest\<close>; the node is unlinked (from the head, or after the predecessor
  the inner loop finds) when its session is \<open>TO_BE_FREED\<close> on arrival and is then pushed
  on \<open>finished\<close>; between the two, a stopping session with no reference and no client
  DCB is marked \<open>TO_BE_FREED\<close>.
\<close>

fun orphan_scan ::
  "(addr \<Rightarrow> SESSION) \<Rightarrow> addr list \<Rightarrow> addr list \<Rightarrow> addr list
     \<Rightarrow> (addr \<Rightarrow> SESSION) \<times> addr list \<times> addr list" where
  "orphan_scan h kept [] finished = (h, kept, finished)"
| "orphan_scan h kept (p # rest) finished =
     (let unlinked = (state (h p) = SESSION_STATE_TO_BE_FREED);
          h' = (if state (h p) = SESSION_STATE_STOPPING \<and> refcount (h p) = 0
                   \<and> ses_client_dcb (h p) = None
                then h(p := (h p)\<lparr>state := SESSION_STATE_TO_BE_FREED\<rparr>)
                else h)
      in orphan_scan h' (if unlinked then kept else kept @ [p]) rest
           (if unlinked then p # finished else finished))"

text \<open>The second loop of \<open>orphan_free\<close>: the finished nodes are freed, head first.\<close>

fun free_finished :: "addr list \<Rightarrow> world \<Rightarrow> world" where
  "free_finished [] w = w"
| "free_finished (s # finished) w =
     free_finished finished
       (emit [MXS_FREE_session s]
          (set_session_state s SESSION_STATE_FREE (emit [router_freeSession s] w)))"

text \<open>
  \<open>orphan_free\<close> in its two phases: under \<open>orphanLock\<close> the registry is scanned and
  the finished nodes are unlinked; after the lock is released, the finished nodes are
  freed.
\<close>

definition orphan_unlink :: "world \<Rightarrow> world \<times> addr list" where
  "orphan_unlink w =
     (let w1 = emit [spinlock_acquire orphanLock] w;
          (h, kept, finished) = orphan_scan (sessions w1) [] (allOrphans w1) []
      in (emit [spinlock_release orphanLock] (w1\<lparr>sessions := h, allOrphans := kept\<rparr>),
          finished))"

definition orphan_free :: "world \<Rightarrow> world" where
  "orphan_free w = (let (w2, finished) = orphan_unlink w in free_finished finished w2)"

section \<open>The loop detector\<close>

text \<open>
  Modelled from the spec: the hash table of \<open>detect_loops\<close> (the hash table itself is
  not part of this file) is the set of the visited service names; it is keyed by service
  name with string hashing and comparison, and \<open>hashtable_add\<close> answers 0 for a name
  that is already there.
\<close>

type_synonym HASHTABLE = "string set"

definition service_names :: "(addr \<times> SERVICE) list \<Rightarrow> string set" where
  "service_names st = set (map (\<lambda>(a, svc). name svc) st)"

definition deref_service :: "(addr \<times> SERVICE) list \<Rightarrow> addr option \<Rightarrow> SERVICE option" where
  "deref_service st p = (case p of None \<Rightarrow> None | Some a \<Rightarrow> map_of st a)"

text \<open>
  \<open>detect_loops\<close> and its loop over the filters of the service. The table is shared by
  all the calls, so each call returns it with the names it added. The answer is \<open>None\<close>
  when a pointer that designates no service is dereferenced. The test for a \<open>NULL\<close> table
  is made where the table is allocated, in \<open>newSession\<close>; the instance argument of the
  source is only passed along and is left out.
\<close>

function detect_loops ::
    "(addr \<times> SERVICE) list \<Rightarrow> HASHTABLE \<Rightarrow> addr option \<Rightarrow> (bool \<times> HASHTABLE) option"
  and detect_loops_for ::
    "(addr \<times> SERVICE) list \<Rightarrow> HASHTABLE \<Rightarrow> FILTER_DEF list \<Rightarrow> (bool \<times> HASHTABLE) option"
where
  "detect_loops st ht p =
     (case deref_service st p of
        None \<Rightarrow> None
      | Some svc \<Rightarrow>
          if name svc \<in> ht then Some (True, ht)
          else detect_loops_for st (insert (name svc) ht) (filters svc))"
| "detect_loops_for st ht [] = Some (False, ht)"
| "detect_loops_for st ht (f # fs) =
     (if module f = ''tee''
      then (case filter_obj f of
              None \<Rightarrow> detect_loops_for st ht fs
            | Some ninst \<Rightarrow>
                (case detect_loops st ht (service ninst) of
                   None \<Rightarrow> None
                 | Some (True, ht') \<Rightarrow> Some (True, ht')
                 | Some (False, ht') \<Rightarrow> detect_loops_for st ht' fs))
      else detect_loops_for st ht fs)"
  by pat_completeness auto

text \<open>The table only grows: the fact the termination of the nested call rests on.\<close>

lemma detect_loops_grows:
  "detect_loops_detect_loops_for_dom (Inl (st, ht, p)) \<Longrightarrow>
     detect_loops st ht p = Some (r, ht') \<Longrightarrow> ht \<subseteq> ht'"
  "detect_loops_detect_loops_for_dom (Inr (st, ht, fs)) \<Longrightarrow>
     detect_loops_for st ht fs = Some (r, ht') \<Longrightarrow> ht \<subseteq> ht'"
proof (induction st ht p and st ht fs arbitrary: r ht' and r ht'
       rule: detect_loops_detect_loops_for.pinduct)
  case (1 st ht p)
  then show ?case
    by (auto simp: detect_loops.psimps split: option.splits if_splits)
next
  case (2 st ht)
  then show ?case by (simp add: detect_loops_for.psimps)
next
  case (3 st ht f fs)
  show ?case
  proof (cases "module f = ''tee''")
    case False
    with 3 show ?thesis by (simp add: detect_loops_for.psimps)
  next
    case tee: True
    show ?thesis
    proof (cases "filter_obj f")
      case None
      with 3 tee show ?thesis by (simp add: detect_loops_for.psimps)
    next
      case (Some ninst)
      from "3.prems" "3.hyps" tee Some obtain r1 h1
        where d: "detect_loops st ht (service ninst) = Some (r1, h1)"
        by (auto simp: detect_loops_for.psimps split: option.splits)
      have sub: "ht \<subseteq> h1" using "3.IH"(2) [OF tee Some d] .
      show ?thesis
      proof (cases r1)
        case True
        with "3.prems" "3.hyps" tee Some d sub show ?thesis
          by (simp add: detect_loops_for.psimps)
      next
        case False
        with "3.prems" "3.hyps" tee Some d have "detect_loops_for st h1 fs = Some (r, ht')"
          by (simp add: detect_loops_for.psimps)
        moreover from False have "r1 = False" by simp
        ultimately have "h1 \<subseteq> ht'" using "3.IH"(3) [OF tee Some d refl] by blast
        with sub show ?thesis by blast
      qed
    qed
  qed
qed

text \<open>
  Every call that goes on adds the name of a configured service that was not in the table,
  and the configured services are finitely many: the walk ends.
\<close>

termination detect_loops
proof (relation "inv_image (less_than <*lex*> less_than)
         (\<lambda>x. case x of
                Inl (st, ht, p) \<Rightarrow> (card (service_names st - ht), 0)
              | Inr (st, ht, fs) \<Rightarrow> (card (service_names st - ht), Suc (length fs)))",
       goal_cases)
  case 1
  show ?case by (intro wf_inv_image wf_lex_prod wf_less_than)
next
  case (2 st ht p svc)
  then have "name svc \<in> service_names st - ht"
    by (force simp: service_names_def deref_service_def dest: map_of_SomeD split: option.splits)
  moreover have "finite (service_names st - ht)"
    by (simp add: service_names_def)
  ultimately have "card (service_names st - insert (name svc) ht) < card (service_names st - ht)"
    by (intro psubset_card_mono) auto
  then show ?case by simp
next
  case (3 st ht f fs)
  then show ?case by simp
next
  case (4 st ht f fs ninst)
  then show ?case by simp
next
  case (5 st ht f fs ninst x2a x y)
  then have "ht \<subseteq> y" using detect_loops_grows(1) by metis
  then have "card (service_names st - y) \<le> card (service_names st - ht)"
    by (intro card_mono) (auto simp: service_names_def)
  then show ?case by auto
next
  case (6 st ht f fs)
  then show ?case by simp
qed

section \<open>The collaborators\<close>

text \<open>
  What the rest of the proxy answers to the filter: whether the allocations succeed, the
  synthetic client DCB and the branch session the core hands out (with the world as they
  leave it), the SQL extraction, the lookup of a service by name, the standard filter
  parameters and the regex compiler (its status, 0 for success, and the compiled regex).
\<close>

record env =
  calloc_ok :: bool
  hashtable_alloc_ok :: bool
  malloc_ok :: bool
  dcb_clone :: "addr option \<Rightarrow> world \<Rightarrow> addr option \<times> world"
  session_alloc :: "addr option \<Rightarrow> addr \<Rightarrow> world \<Rightarrow> addr option \<times> world"
  modutil_get_SQL :: "GWBUF \<Rightarrow> string option"
  service_find :: "string \<Rightarrow> addr option"
  filter_standard_parameter :: "string \<Rightarrow> bool"
  regcomp :: "string \<Rightarrow> int \<Rightarrow> int \<times> regex_t"

section \<open>Instance construction\<close>

text \<open>The flags of \<open>regex.h\<close> (glibc).\<close>

definition REG_EXTENDED :: int where "REG_EXTENDED = 1"
definition REG_ICASE :: int where "REG_ICASE = 2"

text \<open>\<open>tolower\<close> of the C locale, with the \<open>int\<close> result it has in C.\<close>

definition tolower :: "char \<Rightarrow> int" where
  "tolower c = (let n = (of_char c :: int) in if 65 \<le> n \<and> n \<le> 90 then n + 32 else n)"

text \<open>\<open>strcasecmp\<close>, of which the source only tests whether it is zero.\<close>

definition strcasecmp :: "string \<Rightarrow> string \<Rightarrow> int" where
  "strcasecmp a b = (if map tolower a = map tolower b then 0 else 1)"

datatype log_message =
    option_passed
  | service_not_found string
  | unexpected_parameter string
  | unsupported_option string
  | invalid_match string
  | invalid_nomatch string

text \<open>The storage \<open>createInstance\<close> allocates, to record what it releases.\<close>

datatype storage = the_instance | match_text | nomatch_text | source_text | userName_text | compiled_re

text \<open>
  The body of the loop over the parameters, and the loop; a later parameter of the same
  name overwrites the earlier one.
\<close>

definition params_step ::
  "env \<Rightarrow> string \<times> string \<Rightarrow> TEE_INSTANCE \<times> log_message list
     \<Rightarrow> TEE_INSTANCE \<times> log_message list" where
  "params_step e p acc =
     (case (p, acc) of ((pname, pvalue), (inst, lg)) \<Rightarrow>
        if pname = ''service''
        then (case service_find e pvalue of
                None \<Rightarrow> (inst\<lparr>service := None\<rparr>, lg @ [service_not_found pvalue])
              | Some svc \<Rightarrow> (inst\<lparr>service := Some svc\<rparr>, lg))
        else if pname = ''match'' then (inst\<lparr>match := Some pvalue\<rparr>, lg)
        else if pname = ''exclude'' then (inst\<lparr>nomatch := Some pvalue\<rparr>, lg)
        else if pname = ''source'' then (inst\<lparr>source := Some pvalue\<rparr>, lg)
        else if pname = ''user'' then (inst\<lparr>userName := Some pvalue\<rparr>, lg)
        else if \<not> filter_standard_parameter e pname
        then (inst, lg @ [unexpected_parameter pname])
        else (inst, lg))"

fun params_loop ::
  "env \<Rightarrow> (string \<times> string) list \<Rightarrow> TEE_INSTANCE \<times> log_message list
     \<Rightarrow> TEE_INSTANCE \<times> log_message list" where
  "params_loop e [] acc = acc"
| "params_loop e (p # ps) acc = params_loop e ps (params_step e p acc)"

text \<open>
  The body of the loop over the options, which computes the flags of the regex compiler,
  and the loop.
\<close>

definition options_step :: "string \<Rightarrow> int \<times> log_message list \<Rightarrow> int \<times> log_message list" where
  "options_step opt acc =
     (case acc of (cflags, lg) \<Rightarrow>
        if strcasecmp opt ''ignorecase'' = 0 then (cflags OR REG_ICASE, lg)
        else if strcasecmp opt ''case'' = 0 then (cflags AND NOT REG_ICASE, lg)
        else if strcasecmp opt ''extended'' = 0 then (cflags OR REG_EXTENDED, lg)
        else (cflags, lg @ [unsupported_option opt]))"

fun options_loop :: "string list \<Rightarrow> int \<times> log_message list \<Rightarrow> int \<times> log_message list" where
  "options_loop [] acc = acc"
| "options_loop (opt # opts) acc = options_loop opts (options_step opt acc)"

text \<open>\<open>MXS_FREE\<close> of a field: recorded when the pointer is not \<open>NULL\<close>.\<close>

definition allocated :: "TEE_INSTANCE \<Rightarrow> storage \<Rightarrow> bool" where
  "allocated inst x =
     (case x of
        the_instance \<Rightarrow> True
      | match_text \<Rightarrow> match inst \<noteq> None
      | nomatch_text \<Rightarrow> nomatch inst \<noteq> None
      | source_text \<Rightarrow> source inst \<noteq> None
      | userName_text \<Rightarrow> userName inst \<noteq> None
      | compiled_re \<Rightarrow> match inst \<noteq> None)"

definition MXS_FREE :: "TEE_INSTANCE \<Rightarrow> storage list \<Rightarrow> storage list" where
  "MXS_FREE inst xs = filter (allocated inst) xs"

record create_result =
  created :: "TEE_INSTANCE option"
  logged :: "log_message list"
  released :: "storage list"

text \<open>
  The last step of \<open>createInstance\<close>, after the match pattern is compiled or absent:
  the compilation of the exclude pattern.
\<close>

definition createInstance_nomatch ::
  "env \<Rightarrow> int \<Rightarrow> log_message list \<Rightarrow> TEE_INSTANCE \<Rightarrow> create_result" where
  "createInstance_nomatch e cflags lg inst =
     (case nomatch inst of
        None \<Rightarrow> \<lparr>created = Some inst, logged = lg, released = []\<rparr>
      | Some n \<Rightarrow>
          (case regcomp e n cflags of
             (rc, compiled) \<Rightarrow>
               if rc \<noteq> 0
               then \<lparr>created = None, logged = lg @ [invalid_nomatch n],
                     released =
                       (if match inst \<noteq> None then MXS_FREE inst [compiled_re, match_text] else [])
                       @ MXS_FREE inst [nomatch_text, source_text, the_instance]\<rparr>
               else \<lparr>created = Some (inst\<lparr>nore := compiled\<rparr>), logged = lg, released = []\<rparr>))"

text \<open>
  \<open>createInstance\<close>; \<open>options\<close> and \<open>params\<close> are \<open>None\<close> for the \<open>NULL\<close> pointer.
  The regex of a pattern that is not configured is never executed; it stands as the
  regex that matches nothing.
\<close>

definition createInstance ::
  "env \<Rightarrow> string list option \<Rightarrow> (string \<times> string) list option \<Rightarrow> create_result" where
  "createInstance e options params =
     (if \<not> calloc_ok e then \<lparr>created = None, logged = [], released = []\<rparr>
      else
        let lg0 = (if options \<noteq> None then [option_passed] else []);
            inst0 = \<lparr>service = None, source = None, userName = None, match = None,
                     re = (\<lambda>_. 1), nomatch = None, nore = (\<lambda>_. 1)\<rparr>;
            (inst1, lg1) = (case params of None \<Rightarrow> (inst0, lg0)
                            | Some ps \<Rightarrow> params_loop e ps (inst0, lg0));
            (cflags, lg2) = (case options of None \<Rightarrow> (REG_ICASE, lg1)
                             | Some opts \<Rightarrow> options_loop opts (REG_ICASE, lg1))
        in if service inst1 = None
           then \<lparr>created = None, logged = lg2,
                 released = MXS_FREE inst1 [match_text, source_text, the_instance]\<rparr>
           else
             (case (case match inst1 of None \<Rightarrow> None
                    | Some m \<Rightarrow> Some (m, regcomp e m cflags)) of
                Some (m, (rc, compiled)) \<Rightarrow>
                  if rc \<noteq> 0
                  then \<lparr>created = None, logged = lg2 @ [invalid_match m],
                        released = MXS_FREE inst1
                          [match_text, nomatch_text, source_text, the_instance]\<rparr>
                  else createInstance_nomatch e cflags lg2 (inst1\<lparr>re := compiled\<rparr>)
              | None \<Rightarrow> createInstance_nomatch e cflags lg2 inst1))"

section \<open>The branch session manager\<close>

text \<open>The session record as \<open>MXS_CALLOC\<close> returns it: every field zero.\<close>

definition calloc_TEE_SESSION :: "TEE_INSTANCE \<Rightarrow> TEE_SESSION" where
  "calloc_TEE_SESSION inst =
     \<lparr>down = None, up = None, dummy_filterdef = None, active = 0, use_ok = False,
      client_multistatement = 0, multipacket = [False, False], command = 0,
      waiting = [False, False], eof = [0, 0], replies = [0, 0], reply_packets = [0, 0],
      branch_dcb = None, branch_session = None, my_instance_of = inst,
      n_duped = 0, n_rejected = 0, residual = 0, tee_replybuf = None,
      tee_partials = [None, None], queue = None, client_dcb = None\<rparr>"

text \<open>
  \<open>freeSession\<close>: the session record is gone afterwards, so only the world is returned.
  \<open>session_put_ref\<close> belongs to the core and is recorded in the trace.
\<close>

definition freeSession :: "env \<Rightarrow> TEE_SESSION \<Rightarrow> world \<Rightarrow> world" where
  "freeSession e my_session w =
     (let w1 = (case branch_session my_session of
                  None \<Rightarrow> w
                | Some ses \<Rightarrow>
                    if state (sessions w ses) = SESSION_STATE_ROUTER_READY
                    then emit [session_put_ref ses] w
                    else if state (sessions w ses) = SESSION_STATE_TO_BE_FREED
                    then emit [MXS_FREE_session ses]
                           (set_session_state ses SESSION_STATE_FREE
                              (emit [router_freeSession ses] w))
                    else if state (sessions w ses) = SESSION_STATE_STOPPING
                    then create_orphan (malloc_ok e) ses w
                    else w);
          w2 = (case dummy_filterdef my_session of
                  None \<Rightarrow> w1 | Some fd \<Rightarrow> emit [filter_free fd] w1);
          w3 = (case tee_replybuf my_session of
                  None \<Rightarrow> w2 | Some buf \<Rightarrow> emit [gwbuf_free buf] w2)
      in orphan_free (emit [MXS_FREE_tee_session] w3))"

text \<open>
  \<open>newSession\<close>. The answer is \<open>None\<close> when a pointer that designates no service is
  dereferenced; otherwise it is the new session (\<open>None\<close> for the \<open>NULL\<close> the source
  returns) and the world. A table that could not be allocated makes \<open>detect_loops\<close>
  return \<open>-1\<close>, which is true as a \<open>bool\<close>.
\<close>

definition activation_gates :: "TEE_INSTANCE \<Rightarrow> SESSION \<Rightarrow> TEE_SESSION \<Rightarrow> TEE_SESSION" where
  "activation_gates my_instance session my_session =
     (let s1 = (case (source my_instance, ses_remote session) of
                  (Some src, Some remote) \<Rightarrow>
                    if remote \<noteq> src then my_session\<lparr>active := 0\<rparr> else my_session
                | _ \<Rightarrow> my_session)
      in (case (userName my_instance, ses_user session) of
            (Some uname, Some user) \<Rightarrow> if user \<noteq> uname then s1\<lparr>active := 0\<rparr> else s1
          | _ \<Rightarrow> s1))"

definition newSession ::
  "env \<Rightarrow> TEE_INSTANCE \<Rightarrow> SESSION \<Rightarrow> world \<Rightarrow> (TEE_SESSION option \<times> world) option" where
  "newSession e my_instance session w =
     (case (deref_service (services w) (service my_instance),
            deref_service (services w) (Some (ses_service session))) of
        (Some target, Some owner) \<Rightarrow>
          if name target = name owner then Some (None, w)
          else
            (case (if hashtable_alloc_ok e
                   then map_option fst (detect_loops (services w) {} (Some (ses_service session)))
                   else Some True) of
               None \<Rightarrow> None
             | Some True \<Rightarrow> Some (None, w)
             | Some False \<Rightarrow>
                 if \<not> calloc_ok e then Some (None, w)
                 else
                   let my_session =
                         activation_gates my_instance session
                           ((calloc_TEE_SESSION my_instance)
                              \<lparr>active := 1, client_dcb := ses_client_dcb session\<rparr>)
                   in if active my_session \<noteq> 0
                      then (case dcb_clone e (ses_client_dcb session) w of
                              (None, w1) \<Rightarrow> Some (None, freeSession e my_session w1)
                            | (Some dcb, w1) \<Rightarrow>
                                (case session_alloc e (service my_instance) dcb w1 of
                                   (None, w2) \<Rightarrow>
                                     Some (None, freeSession e my_session (emit [dcb_close dcb] w2))
                                 | (Some ses, w2) \<Rightarrow>
                                     Some (Some (my_session\<lparr>branch_session := Some ses,
                                                            branch_dcb := Some dcb\<rparr>), w2)))
                      else Some (Some my_session, w))
      | _ \<Rightarrow> None)"

text \<open>
  \<open>closeSession\<close>. The error packet \<open>modutil_create_mysql_err_msg\<close> builds is recorded
  by its arguments, with the DCB it is written to.
\<close>

definition closeSession :: "TEE_SESSION \<Rightarrow> world \<Rightarrow> TEE_SESSION \<times> world" where
  "closeSession my_session w =
     (if active my_session \<noteq> 0
      then
        let w1 = (case branch_session my_session of
                    None \<Rightarrow> w
                  | Some bsession \<Rightarrow>
                      let wa = emit [spinlock_acquire (ses_lock bsession)] w;
                          wb = (if state (sessions wa bsession) \<noteq> SESSION_STATE_STOPPING
                                then set_session_state bsession SESSION_STATE_STOPPING wa
                                else wa)
                      in emit [spinlock_release (ses_lock bsession),
                               router_closeSession bsession] wb);
            w2 = (if waiting my_session ! PARENT
                  then (case client_dcb my_session of
                          None \<Rightarrow> w1
                        | Some dcb \<Rightarrow>
                            if command my_session \<noteq> 0x01
                               \<and> dcb_state w1 dcb = DCB_STATE_POLLING
                            then emit [dcb_write_err dcb 1 0 1 ''00000'' ''Session closed.''] w1
                            else w1)
                  else w1)
        in (my_session\<lparr>active := 0\<rparr>, w2)
      else (my_session, w))"

definition setDownstream :: "TEE_SESSION \<Rightarrow> DOWNSTREAM \<Rightarrow> TEE_SESSION" where
  "setDownstream my_session downstream = my_session\<lparr>down := Some downstream\<rparr>"

definition setUpstream :: "TEE_SESSION \<Rightarrow> UPSTREAM \<Rightarrow> TEE_SESSION" where
  "setUpstream my_session upstream = my_session\<lparr>up := Some upstream\<rparr>"

section \<open>The query router\<close>

text \<open>
  \<open>route_single_query\<close>. The answer is \<open>None\<close> when the downstream link was never
  set (a call through a null function pointer); otherwise the status, the session and
  the world. The instance argument of the source is not used.
\<close>

definition route_single_query ::
  "TEE_SESSION \<Rightarrow> GWBUF \<Rightarrow> GWBUF option \<Rightarrow> world \<Rightarrow> (int \<times> TEE_SESSION \<times> world) option" where
  "route_single_query my_session buffer clone w =
     (case (if active my_session \<noteq> 0 then branch_session my_session else None) of
        None \<Rightarrow> Some (0, my_session, w)
      | Some b \<Rightarrow>
          if state (sessions w b) = SESSION_STATE_ROUTER_READY
          then (case down my_session of
                  None \<Rightarrow> None
                | Some routeQuery_down \<Rightarrow>
                    (case routeQuery_down buffer w of
                       (rval, w1) \<Rightarrow>
                         (case clone of
                            None \<Rightarrow> Some (rval, my_session, w1)
                          | Some c \<Rightarrow>
                              let s1 = my_session\<lparr>n_duped := n_duped my_session + 1\<rparr>
                              in if state (sessions w1 b) = SESSION_STATE_ROUTER_READY
                                 then Some (rval, s1, emit [SESSION_ROUTE_QUERY b c] w1)
                                 else Some (0, s1\<lparr>active := 0\<rparr>, emit [gwbuf_free c] w1))))
          else Some (0, my_session, w))"

definition routeQuery ::
  "env \<Rightarrow> TEE_INSTANCE \<Rightarrow> TEE_SESSION \<Rightarrow> GWBUF \<Rightarrow> world
     \<Rightarrow> (int \<times> TEE_SESSION \<times> world) option" where
  "routeQuery e my_instance my_session buffer w =
     route_single_query my_session buffer (clone_query (modutil_get_SQL e) my_instance buffer) w"

definition clientReply :: "TEE_SESSION \<Rightarrow> GWBUF \<Rightarrow> world \<Rightarrow> (int \<times> world) option" where
  "clientReply my_session reply w =
     (case up my_session of None \<Rightarrow> None | Some clientReply_up \<Rightarrow> Some (clientReply_up reply w))"

text \<open>
  \<open>reset_session_state\<close>. For command \<open>0x1b\<close> the source reads the byte at offset 5,
  which a buffer of five bytes does not have: the answer is \<open>None\<close> there.
\<close>

definition reset_session_state :: "TEE_SESSION \<Rightarrow> GWBUF \<Rightarrow> (int \<times> TEE_SESSION) option" where
  "reset_session_state my_session buffer =
     (if length buffer < 5 then Some (0, my_session)
      else
        let cmd = buffer ! 4;
            multi = (cmd \<in> {0x1b, 0x03, 0x16, 0x17, 0x04, 0x0a});
            finish = (\<lambda>s. (1, s\<lparr>multipacket := [multi, multi], replies := [0, 0],
                                  reply_packets := [0, 0], eof := [0, 0],
                                  waiting := [True, True], command := cmd\<rparr>))
        in if cmd = 0x1b
           then (if length buffer < 6 then None
                 else Some (finish (my_session\<lparr>client_multistatement := uint (buffer ! 5)\<rparr>)))
           else Some (finish my_session))"

section \<open>The life of a session\<close>

text \<open>
  The entry points the filter chain calls on a live session, and anything else that
  happens in the proxy between two calls (\<open>elsewhere\<close>: other sessions, the routers and
  the core change the world, never the session record of this filter). \<open>diagnostic\<close>
  only prints.
\<close>

datatype filter_call =
    call_setDownstream DOWNSTREAM
  | call_setUpstream UPSTREAM
  | call_routeQuery GWBUF
  | call_clientReply GWBUF
  | call_closeSession
  | call_diagnostic
  | elsewhere "world \<Rightarrow> world"

fun filter_step ::
  "env \<Rightarrow> filter_call \<Rightarrow> TEE_SESSION \<times> world \<Rightarrow> (TEE_SESSION \<times> world) option" where
  "filter_step e (call_setDownstream d) (s, w) = Some (setDownstream s d, w)"
| "filter_step e (call_setUpstream u) (s, w) = Some (setUpstream s u, w)"
| "filter_step e (call_routeQuery q) (s, w) =
     (case routeQuery e (my_instance_of s) s q w of
        None \<Rightarrow> None | Some (rval, s', w') \<Rightarrow> Some (s', w'))"
| "filter_step e (call_clientReply r) (s, w) =
     (case clientReply s r w of None \<Rightarrow> None | Some (rval, w') \<Rightarrow> Some (s, w'))"
| "filter_step e call_closeSession (s, w) = Some (closeSession s w)"
| "filter_step e call_diagnostic (s, w) = Some (s, w)"
| "filter_step e (elsewhere f) (s, w) = Some (s, f w)"

fun filter_run ::
  "env \<Rightarrow> filter_call list \<Rightarrow> TEE_SESSION \<times> world \<Rightarrow> (TEE_SESSION \<times> world) option" where
  "filter_run e [] sw = Some sw"
| "filter_run e (c # cs) sw =
     (case filter_step e c sw of None \<Rightarrow> None | Some sw' \<Rightarrow> filter_run e cs sw')"

section \<open>Example configurations\<close>

text \<open>
  A small proxy for the concrete cases: two services, buffers of a few commands, an SQL
  extraction that knows the two queries, and collaborators that always succeed.
\<close>

definition query_SELECT :: GWBUF where
  "query_SELECT = [9, 0, 0, 0, 0x03, 0x53, 0x45, 0x4c, 0x45, 0x43, 0x54, 0x20, 0x31]"

definition query_INSERT :: GWBUF where
  "query_INSERT = [7, 0, 0, 0, 0x03, 0x49, 0x4e, 0x53, 0x45, 0x52, 0x54]"

definition packet_INIT_DB :: GWBUF where
  "packet_INIT_DB = [3, 0, 0, 0, 0x02, 0x64, 0x62]"

definition packet_PING :: GWBUF where
  "packet_PING = [1, 0, 0, 0, 0x0e]"

lemmas example_buffer_defs = query_SELECT_def query_INSERT_def packet_INIT_DB_def packet_PING_def

definition example_get_SQL :: "GWBUF \<Rightarrow> string option" where
  "example_get_SQL buf =
     (if buf = query_SELECT then Some ''SELECT 1''
      else if buf = query_INSERT then Some ''INSERT''
      else None)"

definition example_session :: SESSION where
  "example_session =
     \<lparr>state = SESSION_STATE_ROUTER_READY, refcount = 1, ses_client_dcb = Some 10,
      ses_service = 1, router_session = 20, ses_remote = Some ''10.0.0.9'',
      ses_user = Some ''alice''\<rparr>"

definition example_instance :: TEE_INSTANCE where
  "example_instance =
     \<lparr>service = Some 2, source = Some ''10.0.0.5'', userName = None,
      match = Some ''^SELECT'', re = (\<lambda>sql. if take 6 sql = ''SELECT'' then 0 else 1),
      nomatch = Some ''^DROP'', nore = (\<lambda>sql. if take 4 sql = ''DROP'' then 0 else 1)\<rparr>"

definition example_world :: world where
  "example_world =
     \<lparr>services = [(1, \<lparr>name = ''main_svc'',
                      filters = [\<lparr>module = ''tee'', filter_obj = Some example_instance\<rparr>]\<rparr>),
                  (2, \<lparr>name = ''branch_svc'', filters = []\<rparr>)],
      sessions = (\<lambda>_. example_session),
      dcb_state = (\<lambda>_. DCB_STATE_POLLING),
      allOrphans = [],
      trace = []\<rparr>"

definition example_env :: env where
  "example_env =
     \<lparr>calloc_ok = True, hashtable_alloc_ok = True, malloc_ok = True,
      dcb_clone = (\<lambda>dcb w. (Some 11, w)),
      session_alloc = (\<lambda>svc dcb w. (Some 7, w)),
      modutil_get_SQL = example_get_SQL,
      service_find = (\<lambda>n. if n = ''branch_svc'' then Some 2 else None),
      filter_standard_parameter = (\<lambda>n. n = ''type'' \<or> n = ''module''),
      regcomp = (\<lambda>pat cflags. if pat = ''('' then (1, \<lambda>_. 1)
                               else (0, \<lambda>sql. if take (length pat) sql = pat then 0 else 1))\<rparr>"

definition example_down :: DOWNSTREAM where
  "example_down buf w = (1, emit [down_routeQuery buf] w)"


definition inactive_session :: TEE_SESSION where
  "inactive_session = (calloc_TEE_SESSION example_instance)\<lparr>client_dcb := Some 10\<rparr>"

definition active_session :: TEE_SESSION where
  "active_session =
     (calloc_TEE_SESSION example_instance)
       \<lparr>down := Some example_down, active := 1, branch_dcb := Some 11,
        branch_session := Some 7, client_dcb := Some 10\<rparr>"

definition teardown_down :: DOWNSTREAM where
  "teardown_down buf w =
     (1, set_session_state 7 SESSION_STATE_STOPPING (emit [down_routeQuery buf] w))"

definition stopping_world :: world where
  "stopping_world = set_session_state 7 SESSION_STATE_STOPPING example_world"

lemmas example_defs =
  example_env_def example_instance_def example_session_def example_world_def
  example_down_def example_get_SQL_def example_buffer_defs

definition matching_session :: SESSION where
  "matching_session = example_session\<lparr>ses_remote := Some ''10.0.0.5''\<rparr>"

text \<open>The error replies among the events of a trace.\<close>

fun is_dcb_write_err :: "event \<Rightarrow> bool" where
  "is_dcb_write_err (dcb_write_err dcb a b c sqlstate msg) = True"
| "is_dcb_write_err _ = False"

text \<open>
  Three configurations of chained tee filters: a cycle between A and B, a chain from A
  over B to C, and a chain whose second tee filter is not created yet.
\<close>

definition tee_to :: "addr \<Rightarrow> TEE_INSTANCE" where
  "tee_to a =
     \<lparr>service = Some a, source = None, userName = None, match = None, re = (\<lambda>_. 1),
      nomatch = None, nore = (\<lambda>_. 1)\<rparr>"






text \<open>
  To state what a configuration says: the values it gives to a parameter, in order (the
  last one counts), and the flags its options ask for.
\<close>

definition param_values :: "(string \<times> string) list option \<Rightarrow> string \<Rightarrow> string list" where
  "param_values params k =
     map snd (filter (\<lambda>p. fst p = k) (case params of None \<Rightarrow> [] | Some ps \<Rightarrow> ps))"

definition cflags_of :: "string list option \<Rightarrow> int" where
  "cflags_of options =
     (case options of None \<Rightarrow> REG_ICASE | Some opts \<Rightarrow> fst (options_loop opts (REG_ICASE, [])))"

text \<open>
  To state what the reclaim scan does: the sessions it finds \<open>TO_BE_FREED\<close>, the
  stopping sessions without reference and client DCB, which it marks, the events of
  freeing the finished nodes, and the number of times the memory of a session was
  released so far.
\<close>

definition to_be_freed :: "(addr \<Rightarrow> SESSION) \<Rightarrow> addr \<Rightarrow> bool" where
  "to_be_freed h p \<longleftrightarrow> state (h p) = SESSION_STATE_TO_BE_FREED"

definition quiescent :: "(addr \<Rightarrow> SESSION) \<Rightarrow> addr \<Rightarrow> bool" where
  "quiescent h p \<longleftrightarrow>
     state (h p) = SESSION_STATE_STOPPING \<and> refcount (h p) = 0 \<and> ses_client_dcb (h p) = None"

definition mark :: "(addr \<Rightarrow> SESSION) \<Rightarrow> addr list \<Rightarrow> addr \<Rightarrow> SESSION" where
  "mark h ps p =
     (if p \<in> set ps \<and> quiescent h p then (h p)\<lparr>state := SESSION_STATE_TO_BE_FREED\<rparr> else h p)"

definition freeing :: "addr list \<Rightarrow> event list" where
  "freeing finished = concat (map (\<lambda>p. [router_freeSession p, MXS_FREE_session p]) finished)"

definition frees :: "addr \<Rightarrow> world \<Rightarrow> nat" where
  "frees s w = count_list (trace w) (MXS_FREE_session s)"

text \<open>
  What happens to the registry over time: a scan (every \<open>freeSession\<close> ends with
  one), another session handed over by \<open>create_orphan\<close>, or anything outside the
  registry (the routers drop references and close DCBs, other filter sessions free
  their own branch session). In a run, \<open>handed_once s\<close> says that every session is
  handed over at most once and \<open>s\<close> is not handed over again, and that the outside
  steps leave the registry alone and do not release the memory of \<open>s\<close> themselves;
  \<open>undisturbed s\<close> says that the outside steps leave the session record of \<open>s\<close>
  alone.
\<close>

datatype registry_event =
    scan
  | hand_over bool addr
  | outside "world \<Rightarrow> world"

fun registry_step :: "registry_event \<Rightarrow> world \<Rightarrow> world" where
  "registry_step scan w = orphan_free w"
| "registry_step (hand_over ok t) w = create_orphan ok t w"
| "registry_step (outside f) w = f w"

fun registry_run :: "registry_event list \<Rightarrow> world \<Rightarrow> world" where
  "registry_run [] w = w"
| "registry_run (ev # evs) w = registry_run evs (registry_step ev w)"

fun handed_once :: "addr \<Rightarrow> registry_event list \<Rightarrow> world \<Rightarrow> bool" where
  "handed_once s [] w = True"
| "handed_once s (scan # evs) w = handed_once s evs (orphan_free w)"
| "handed_once s (hand_over ok t # evs) w =
     (t \<noteq> s \<and> t \<notin> set (allOrphans w) \<and> handed_once s evs (create_orphan ok t w))"
| "handed_once s (outside f # evs) w =
     (allOrphans (f w) = allOrphans w \<and> frees s (f w) = frees s w \<and> handed_once s evs (f w))"

fun undisturbed :: "addr \<Rightarrow> registry_event list \<Rightarrow> world \<Rightarrow> bool" where
  "undisturbed s [] w = True"
| "undisturbed s (outside f # evs) w = (sessions (f w) s = sessions w s \<and> undisturbed s evs (f w))"
| "undisturbed s (ev # evs) w = undisturbed s evs (registry_step ev w)"

text \<open>
  For the concrete case: a world in which every session is stopping and still referenced,
  and the step by which the router lets go of a session.
\<close>

definition quiesce :: "addr \<Rightarrow> world \<Rightarrow> world" where
  "quiesce t w =
     w\<lparr>sessions := (sessions w)(t := (sessions w t)\<lparr>refcount := 0, ses_client_dcb := None\<rparr>)\<rparr>"

definition busy_world :: world where
  "busy_world =
     example_world\<lparr>sessions := (\<lambda>_. example_session\<lparr>state := SESSION_STATE_STOPPING\<rparr>)\<rparr>"

section \<open>Properties of the match engine\<close>

lemma required_scan_table:
  "required_scan c required_packets \<noteq> 0 \<longleftrightarrow>
     c \<in> {MYSQL_COM_QUIT, MYSQL_COM_INITDB, MYSQL_COM_CHANGE_USER, MYSQL_COM_STMT_PREPARE,
          MYSQL_COM_STMT_EXECUTE, MYSQL_COM_STMT_SEND_LONG_DATA, MYSQL_COM_STMT_CLOSE,
          MYSQL_COM_STMT_RESET, MYSQL_COM_CONNECT}"
  by (simp add: required_packets_def command_defs)

text \<open>
  C2. With neither an include nor an exclude pattern configured, or with a buffer longer
  than four bytes whose byte at offset 4 is one of QUIT, INIT_DB, CHANGE_USER,
  STMT_PREPARE, STMT_EXECUTE, STMT_SEND_LONG_DATA, STMT_CLOSE, STMT_RESET, CONNECT,
  \<open>clone_query\<close> returns a full copy of the buffer, whatever the patterns and whatever
  the SQL extraction answers.
\<close>

theorem clone_query_unconditional:
  assumes "(match my_instance = None \<and> nomatch my_instance = None)
           \<or> (length buffer > 4 \<and>
              buffer ! 4 \<in> {MYSQL_COM_QUIT, MYSQL_COM_INITDB, MYSQL_COM_CHANGE_USER,
                MYSQL_COM_STMT_PREPARE, MYSQL_COM_STMT_EXECUTE, MYSQL_COM_STMT_SEND_LONG_DATA,
                MYSQL_COM_STMT_CLOSE, MYSQL_COM_STMT_RESET, MYSQL_COM_CONNECT})"
  shows "clone_query get_SQL my_instance buffer = Some buffer"
proof -
  from assms consider (nopat) "match my_instance = None \<and> nomatch my_instance = None"
    | (req) "packet_is_required buffer \<noteq> 0"
    using required_scan_table [of "buffer ! 4"] by (auto simp: packet_is_required_def)
  then show ?thesis
    by cases (simp_all add: clone_query_def gwbuf_clone_all_def)
qed

theorem clone_query_unconditional_witness:
  "clone_query example_get_SQL example_instance packet_INIT_DB = Some packet_INIT_DB"
  using clone_query_unconditional [of example_instance packet_INIT_DB example_get_SQL]
  by (simp add: packet_INIT_DB_def command_defs)




section \<open>Properties of the query router\<close>

lemma emit_Nil: "emit [] w = w"
  by (simp add: emit_def)

text \<open>
  The session \<open>newSession\<close> creates for a client from \<open>10.0.0.9\<close> when the source filter
  is \<open>10.0.0.5\<close> is alive and inactive; its query is answered with status 0 and the
  downstream link, which would have answered 1, is not called: the world is unchanged.
  And for an active session whose branch session is stopped while the downstream link
  routes the query, the answer is 0 although the downstream link answered 1.
\<close>

theorem routeQuery_inactive_counterexample:
  "newSession example_env example_instance example_session example_world
     = Some (Some inactive_session, example_world)
   \<and> routeQuery example_env example_instance (setDownstream inactive_session example_down)
         query_SELECT example_world
       = Some (0, setDownstream inactive_session example_down, example_world)
   \<and> example_down query_SELECT example_world
       = (1, emit [down_routeQuery query_SELECT] example_world)
   \<and> fst (the (routeQuery example_env example_instance
                  (setDownstream active_session teardown_down) query_SELECT example_world)) = 0
   \<and> fst (teardown_down query_SELECT example_world) = 1"
  by (simp add: newSession_def deref_service_def activation_gates_def calloc_TEE_SESSION_def
        inactive_session_def routeQuery_def route_single_query_def setDownstream_def
        clone_query_def packet_is_required_def required_packets_def command_defs
        gwbuf_clone_all_def regexec_def active_session_def teardown_down_def
        set_session_state_def emit_def example_defs)

text \<open>
  C1, as the code has it. For a session that is active and whose branch session exists
  and is in the state \<open>ROUTER_READY\<close>, with the downstream link set, \<open>routeQuery\<close>
  forwards the buffer along the primary chain first (the resulting world is the one the
  downstream link returns, followed by what is sent to the branch) and returns the status
  of the primary path, unless a clone was produced and the branch session is no longer
  ready after the forward: then it returns 0.
\<close>

theorem routeQuery_primary:
  assumes "active s \<noteq> 0" and "branch_session s = Some b"
    and "state (sessions w b) = SESSION_STATE_ROUTER_READY" and "down s = Some d"
  shows "\<exists>s' es.
           routeQuery e inst s buffer w =
             Some (if clone_query (modutil_get_SQL e) inst buffer = None
                      \<or> state (sessions (snd (d buffer w)) b) = SESSION_STATE_ROUTER_READY
                   then fst (d buffer w) else 0,
                   s', emit es (snd (d buffer w)))"
proof -
  obtain rval w1 where d: "d buffer w = (rval, w1)" by (cases "d buffer w")
  show ?thesis
  proof (cases "clone_query (modutil_get_SQL e) inst buffer")
    case None
    with assms d have "routeQuery e inst s buffer w = Some (rval, s, emit [] w1)"
      by (simp add: routeQuery_def route_single_query_def emit_Nil)
    with None d show ?thesis by auto
  next
    case (Some c)
    show ?thesis
    proof (cases "state (sessions w1 b) = SESSION_STATE_ROUTER_READY")
      case True
      with assms d Some have "routeQuery e inst s buffer w =
          Some (rval, s\<lparr>n_duped := n_duped s + 1\<rparr>, emit [SESSION_ROUTE_QUERY b c] w1)"
        by (simp add: routeQuery_def route_single_query_def)
      with True d show ?thesis by auto
    next
      case False
      with assms d Some have "routeQuery e inst s buffer w =
          Some (0, s\<lparr>n_duped := n_duped s + 1, active := 0\<rparr>, emit [gwbuf_free c] w1)"
        by (simp add: routeQuery_def route_single_query_def)
      with False Some d show ?thesis by auto
    qed
  qed
qed

theorem routeQuery_primary_witness:
  "active active_session \<noteq> 0 \<and> branch_session active_session = Some 7
   \<and> state (sessions example_world 7) = SESSION_STATE_ROUTER_READY
   \<and> down active_session = Some example_down
   \<and> example_down query_SELECT example_world
       = (1, emit [down_routeQuery query_SELECT] example_world)
   \<and> (\<exists>s' es. routeQuery example_env example_instance active_session query_SELECT example_world
         = Some (1, s', emit es (emit [down_routeQuery query_SELECT] example_world)))"
proof -
  have h: "active active_session \<noteq> 0" "branch_session active_session = Some 7"
    "state (sessions example_world 7) = SESSION_STATE_ROUTER_READY"
    "down active_session = Some example_down"
    by (simp_all add: active_session_def calloc_TEE_SESSION_def example_world_def
          example_session_def)
  have d: "example_down query_SELECT example_world
             = (1, emit [down_routeQuery query_SELECT] example_world)"
    by (simp add: example_down_def)
  have r: "state (sessions (emit [down_routeQuery query_SELECT] example_world) 7)
             = SESSION_STATE_ROUTER_READY"
    by (simp add: emit_def example_world_def example_session_def)
  from routeQuery_primary [OF h, of example_env example_instance query_SELECT] d r h
  show ?thesis by simp
qed

text \<open>
  With a clone produced and the branch session stopping when the query arrives, the
  query is answered with status 0 although the downstream link would have answered 1;
  the session and the world are unchanged: the clone is not freed, \<open>active\<close> stays 1 and
  \<open>n_rejected\<close> stays 0. When the branch session stops during the forward, the answer is 0
  as well, and the counter that moves is \<open>n_duped\<close>.
\<close>

theorem route_branch_not_ready_counterexample:
  "clone_query (modutil_get_SQL example_env) example_instance query_SELECT = Some query_SELECT
   \<and> state (sessions stopping_world 7) = SESSION_STATE_STOPPING
   \<and> example_down query_SELECT stopping_world
       = (1, emit [down_routeQuery query_SELECT] stopping_world)
   \<and> routeQuery example_env example_instance active_session query_SELECT stopping_world
       = Some (0, active_session, stopping_world)
   \<and> active active_session = 1 \<and> n_rejected active_session = 0
   \<and> routeQuery example_env example_instance (setDownstream active_session teardown_down)
         query_SELECT example_world
       = Some (0, (setDownstream active_session teardown_down)\<lparr>n_duped := 1, active := 0\<rparr>,
               emit [gwbuf_free query_SELECT] (snd (teardown_down query_SELECT example_world)))
   \<and> fst (teardown_down query_SELECT example_world) = 1"
  by (simp add: routeQuery_def route_single_query_def clone_query_def packet_is_required_def
        required_packets_def command_defs gwbuf_clone_all_def regexec_def setDownstream_def
        active_session_def calloc_TEE_SESSION_def stopping_world_def teardown_down_def
        set_session_state_def emit_def example_defs)

text \<open>
  C4, as the code has it. For an active session with a branch session and a clone: when
  the branch session is not ready as the query arrives, \<open>route_single_query\<close> answers 0;
  when it is ready as the query arrives and no longer ready after the primary forward,
  the clone is freed, \<open>active\<close> becomes 0 and the answer is 0, not the status of the
  primary path.
\<close>

theorem route_single_query_branch_lost:
  assumes "active s \<noteq> 0" and "branch_session s = Some b" and "down s = Some d"
  shows "(state (sessions w b) \<noteq> SESSION_STATE_ROUTER_READY \<longrightarrow>
            (\<exists>s' w'. route_single_query s buffer (Some c) w = Some (0, s', w')))
         \<and> (state (sessions w b) = SESSION_STATE_ROUTER_READY
              \<and> state (sessions (snd (d buffer w)) b) \<noteq> SESSION_STATE_ROUTER_READY \<longrightarrow>
            (\<exists>s'. route_single_query s buffer (Some c) w
                     = Some (0, s', emit [gwbuf_free c] (snd (d buffer w)))
                  \<and> active s' = 0))"
proof -
  obtain rval w1 where d: "d buffer w = (rval, w1)" by (cases "d buffer w")
  with assms show ?thesis
    by (simp add: route_single_query_def)
qed

theorem route_single_query_branch_lost_witness:
  "active active_session \<noteq> 0 \<and> branch_session active_session = Some 7
   \<and> state (sessions stopping_world 7) \<noteq> SESSION_STATE_ROUTER_READY
   \<and> (\<exists>s' w'. route_single_query active_session query_SELECT (Some query_SELECT) stopping_world
                  = Some (0, s', w'))
   \<and> state (sessions example_world 7) = SESSION_STATE_ROUTER_READY
   \<and> state (sessions (snd (teardown_down query_SELECT example_world)) 7)
        \<noteq> SESSION_STATE_ROUTER_READY
   \<and> (\<exists>s'. route_single_query (setDownstream active_session teardown_down) query_SELECT
               (Some query_SELECT) example_world
             = Some (0, s', emit [gwbuf_free query_SELECT]
                              (snd (teardown_down query_SELECT example_world)))
           \<and> active s' = 0)"
proof -
  have h: "active active_session \<noteq> 0" "branch_session active_session = Some 7"
    "down active_session = Some example_down"
    "active (setDownstream active_session teardown_down) \<noteq> 0"
    "branch_session (setDownstream active_session teardown_down) = Some 7"
    "down (setDownstream active_session teardown_down) = Some teardown_down"
    by (simp_all add: active_session_def calloc_TEE_SESSION_def setDownstream_def)
  have st: "state (sessions stopping_world 7) \<noteq> SESSION_STATE_ROUTER_READY"
    "state (sessions example_world 7) = SESSION_STATE_ROUTER_READY"
    "state (sessions (snd (teardown_down query_SELECT example_world)) 7)
        \<noteq> SESSION_STATE_ROUTER_READY"
    by (simp_all add: stopping_world_def teardown_down_def set_session_state_def emit_def
          example_world_def example_session_def)
  from route_single_query_branch_lost [OF h(1,2,3), of stopping_world query_SELECT query_SELECT]
    route_single_query_branch_lost [OF h(4,5,6), of example_world query_SELECT query_SELECT]
    h(1,2) st
  show ?thesis by simp
qed

section \<open>Properties of the branch session manager\<close>

text \<open>
  C8. After \<open>closeSession\<close> has run, \<open>active\<close> is 0, and a second call, in whatever
  world, changes neither the session nor the world: no router close is requested and no
  error reply is written a second time.
\<close>

theorem closeSession_idempotent:
  "active (fst (closeSession s w)) = 0
   \<and> closeSession (fst (closeSession s w)) w' = (fst (closeSession s w), w')"
  by (simp add: closeSession_def Let_def)

theorem closeSession_idempotent_witness:
  "closeSession active_session example_world
     = (active_session\<lparr>active := 0\<rparr>,
        emit [spinlock_acquire (ses_lock 7), spinlock_release (ses_lock 7), router_closeSession 7]
          (set_session_state 7 SESSION_STATE_STOPPING example_world))
   \<and> closeSession (active_session\<lparr>active := 0\<rparr>) example_world
     = (active_session\<lparr>active := 0\<rparr>, example_world)"
  using closeSession_idempotent [of active_session example_world example_world]
  by (simp add: closeSession_def Let_def active_session_def calloc_TEE_SESSION_def PARENT_def
        example_world_def example_session_def emit_def set_session_state_def)

text \<open>
  What the entry points leave alone: none of them writes the waiting flags, the branch
  session or the branch DCB of a session, and none sets \<open>active\<close> again once it is 0.
\<close>

lemma route_single_query_fields:
  assumes "route_single_query s buffer clone w = Some (rval, s', w')"
  shows "waiting s' = waiting s" and "branch_session s' = branch_session s"
    and "branch_dcb s' = branch_dcb s" and "active s = 0 \<longrightarrow> active s' = 0"
  using assms
  by (auto simp: route_single_query_def Let_def split: option.splits if_splits prod.splits)

lemma closeSession_fields:
  assumes "closeSession s w = (s', w')"
  shows "waiting s' = waiting s" and "branch_session s' = branch_session s"
    and "branch_dcb s' = branch_dcb s" and "active s = 0 \<longrightarrow> active s' = 0"
  using assms
  by (auto simp: closeSession_def Let_def split: if_splits)

lemma filter_step_fields:
  assumes "filter_step e c (s, w) = Some (s', w')"
  shows "waiting s' = waiting s \<and> branch_session s' = branch_session s
         \<and> branch_dcb s' = branch_dcb s \<and> (active s = 0 \<longrightarrow> active s' = 0)"
proof (cases c)
  case (call_routeQuery q)
  with assms obtain rval where "route_single_query s q
      (clone_query (modutil_get_SQL e) (my_instance_of s) q) w = Some (rval, s', w')"
    by (auto simp: routeQuery_def split: option.splits)
  from route_single_query_fields [OF this] show ?thesis by simp
next
  case call_closeSession
  with assms have "closeSession s w = (s', w')" by simp
  from closeSession_fields [OF this] show ?thesis by simp
qed (use assms in \<open>auto simp: setDownstream_def setUpstream_def clientReply_def split: option.splits\<close>)

lemma filter_run_fields:
  "filter_run e calls (s, w) = Some (s', w') \<Longrightarrow>
     waiting s' = waiting s \<and> branch_session s' = branch_session s
     \<and> branch_dcb s' = branch_dcb s \<and> (active s = 0 \<longrightarrow> active s' = 0)"
proof (induction calls arbitrary: s w)
  case Nil
  then show ?case by simp
next
  case (Cons c calls)
  then obtain s1 w1 where st: "filter_step e c (s, w) = Some (s1, w1)"
    and run: "filter_run e calls (s1, w1) = Some (s', w')"
    by (auto split: option.splits)
  from filter_step_fields [OF st] Cons.IH [OF run] show ?case by simp
qed

lemma activation_gates_fields:
  "waiting (activation_gates i ses s) = waiting s"
  "branch_session (activation_gates i ses s) = branch_session s"
  "branch_dcb (activation_gates i ses s) = branch_dcb s"
  by (simp_all add: activation_gates_def Let_def split: option.splits)

lemma newSession_waiting:
  assumes "newSession e my_instance session w = Some (Some s, w1)"
  shows "waiting s = [False, False]"
  using assms
  by (auto simp: newSession_def Let_def activation_gates_fields calloc_TEE_SESSION_def
      split: option.splits if_splits prod.splits bool.splits)

lemma example_detect_loops:
  "detect_loops (services example_world) {} (Some (ses_service example_session))
     = Some (False, {''branch_svc'', ''main_svc''})"
  by (simp add: example_world_def example_session_def example_instance_def deref_service_def)

text \<open>
  C6. When session creation is not refused (the names of the two services differ, the
  loop detector finds no loop, the session record is allocated) and the source filter is
  configured and differs from the client's address, or the user filter is configured and
  differs from the client's user name, \<open>newSession\<close> returns a live session with
  \<open>active\<close> 0, without a branch session and a branch DCB and without asking the core
  for either (the world is unchanged); and after any sequence of calls of the filter on
  that session, \<open>active\<close> is still 0 and there is still no branch session and no branch
  DCB.
\<close>

theorem newSession_gates:
  assumes "deref_service (services w) (service my_instance) = Some target"
    and "deref_service (services w) (Some (ses_service session)) = Some owner"
    and "name target \<noteq> name owner"
    and "hashtable_alloc_ok e"
    and "detect_loops (services w) {} (Some (ses_service session)) = Some (False, ht)"
    and "calloc_ok e"
    and "(source my_instance = Some src \<and> ses_remote session = Some remote \<and> remote \<noteq> src)
         \<or> (userName my_instance = Some uname \<and> ses_user session = Some user \<and> user \<noteq> uname)"
  shows "\<exists>s. newSession e my_instance session w = Some (Some s, w)
             \<and> active s = 0 \<and> branch_session s = None \<and> branch_dcb s = None
             \<and> (\<forall>calls w0 s' w'. filter_run e calls (s, w0) = Some (s', w') \<longrightarrow>
                    active s' = 0 \<and> branch_session s' = None \<and> branch_dcb s' = None)"
proof -
  define s where "s = activation_gates my_instance session
      ((calloc_TEE_SESSION my_instance)\<lparr>active := 1, client_dcb := ses_client_dcb session\<rparr>)"
  from assms(7) have act: "active s = 0"
    by (auto simp: s_def activation_gates_def Let_def split: option.splits)
  have flds: "branch_session s = None" "branch_dcb s = None"
    by (simp_all add: s_def activation_gates_fields calloc_TEE_SESSION_def)
  from assms(1-6) act have new: "newSession e my_instance session w = Some (Some s, w)"
    by (simp add: newSession_def s_def Let_def)
  have "active s' = 0 \<and> branch_session s' = None \<and> branch_dcb s' = None"
    if "filter_run e calls (s, w0) = Some (s', w')" for calls w0 s' w'
    using filter_run_fields [OF that] act flds by simp
  with new act flds show ?thesis by blast
qed

theorem newSession_gates_witness:
  "newSession example_env example_instance example_session example_world
     = Some (Some inactive_session, example_world)
   \<and> active inactive_session = 0 \<and> branch_session inactive_session = None
   \<and> branch_dcb inactive_session = None
   \<and> (\<exists>s' w'. filter_run example_env
                  [call_setDownstream example_down, call_routeQuery query_SELECT]
                  (inactive_session, example_world) = Some (s', w')
               \<and> active s' = 0 \<and> branch_session s' = None \<and> branch_dcb s' = None)"
proof -
  have new: "newSession example_env example_instance example_session example_world
     = Some (Some inactive_session, example_world)"
    by (simp add: newSession_def deref_service_def activation_gates_def calloc_TEE_SESSION_def
        inactive_session_def example_env_def example_instance_def example_session_def
        example_world_def)
  have run: "filter_run example_env
                  [call_setDownstream example_down, call_routeQuery query_SELECT]
                  (inactive_session, example_world)
             = Some (setDownstream inactive_session example_down, example_world)"
    by (simp add: routeQuery_def route_single_query_def setDownstream_def inactive_session_def
        calloc_TEE_SESSION_def)
  have "\<exists>s. newSession example_env example_instance example_session example_world
               = Some (Some s, example_world)
           \<and> active s = 0 \<and> branch_session s = None \<and> branch_dcb s = None
           \<and> (\<forall>calls w0 s' w'. filter_run example_env calls (s, w0) = Some (s', w') \<longrightarrow>
                  active s' = 0 \<and> branch_session s' = None \<and> branch_dcb s' = None)"
  proof (rule newSession_gates)
    show "deref_service (services example_world) (service example_instance)
            = Some \<lparr>name = ''branch_svc'', filters = []\<rparr>"
      by (simp add: deref_service_def example_world_def example_instance_def)
    show "deref_service (services example_world) (Some (ses_service example_session))
            = Some \<lparr>name = ''main_svc'',
                    filters = [\<lparr>module = ''tee'', filter_obj = Some example_instance\<rparr>]\<rparr>"
      by (simp add: deref_service_def example_world_def example_session_def)
    show "name \<lparr>name = ''branch_svc'', filters = []\<rparr>
            \<noteq> name \<lparr>name = ''main_svc'',
                    filters = [\<lparr>module = ''tee'', filter_obj = Some example_instance\<rparr>]\<rparr>"
      by simp
    show "hashtable_alloc_ok example_env" "calloc_ok example_env"
      by (simp_all add: example_env_def)
    show "detect_loops (services example_world) {} (Some (ses_service example_session))
            = Some (False, {''branch_svc'', ''main_svc''})"
      by (rule example_detect_loops)
    show "(source example_instance = Some ''10.0.0.5''
             \<and> ses_remote example_session = Some ''10.0.0.9'' \<and> ''10.0.0.9'' \<noteq> ''10.0.0.5'')
          \<or> (userName example_instance = Some [] \<and> ses_user example_session = Some []
              \<and> [] \<noteq> ([] :: string))"
      by (simp add: example_instance_def example_session_def)
  qed
  then obtain s where s: "newSession example_env example_instance example_session example_world
               = Some (Some s, example_world)"
      "active s = 0" "branch_session s = None" "branch_dcb s = None"
      "\<And>calls w0 s' w'. filter_run example_env calls (s, w0) = Some (s', w') \<Longrightarrow>
                  active s' = 0 \<and> branch_session s' = None \<and> branch_dcb s' = None"
    by blast
  from s(1) new have eq: "s = inactive_session" by simp
  from s(5) [OF run [folded eq]] run new s(2-4) show ?thesis
    unfolding eq by blast
qed

lemma reset_session_state_waiting:
  "reset_session_state s0 buffer = Some (1, s1) \<Longrightarrow> waiting s1 = [True, True]"
  by (auto simp: reset_session_state_def Let_def split: if_splits)

text \<open>
  C10. In every state a session reaches from its creation by \<open>newSession\<close> through
  calls of the filter (and anything happening elsewhere in between), both waiting flags
  are false, so \<open>waiting[PARENT]\<close> is false and \<open>closeSession\<close> writes no error reply:
  the error replies of the trace are the same before and after it. The flags would be set
  by \<open>reset_session_state\<close>, which no entry point calls.
\<close>

theorem waiting_never_set:
  assumes "newSession e my_instance session w = Some (Some s, w1)"
    and "filter_run e calls (s, w1) = Some (s', w')"
  shows "waiting s' = [False, False] \<and> \<not> waiting s' ! PARENT
         \<and> (\<forall>w''. filter is_dcb_write_err (trace (snd (closeSession s' w'')))
                     = filter is_dcb_write_err (trace w''))
         \<and> (\<forall>buffer s1. reset_session_state s' buffer = Some (1, s1) \<longrightarrow>
                waiting s1 = [True, True])"
proof -
  from newSession_waiting [OF assms(1)] filter_run_fields [OF assms(2)]
  have wt: "waiting s' = [False, False]" by simp
  then have np: "\<not> waiting s' ! PARENT" by (simp add: PARENT_def)
  have "filter is_dcb_write_err (trace (snd (closeSession s' w'')))
          = filter is_dcb_write_err (trace w'')" for w''
    using np by (simp add: closeSession_def Let_def emit_def set_session_state_def
        split: option.splits)
  with wt np reset_session_state_waiting show ?thesis by blast
qed

theorem waiting_never_set_witness:
  "newSession example_env example_instance matching_session example_world
     = Some (Some (active_session\<lparr>down := None\<rparr>), example_world)
   \<and> filter_run example_env [call_setDownstream example_down, call_routeQuery query_SELECT]
         (active_session\<lparr>down := None\<rparr>, example_world)
       = Some (active_session\<lparr>n_duped := 1\<rparr>,
               emit [down_routeQuery query_SELECT, SESSION_ROUTE_QUERY 7 query_SELECT]
                 example_world)
   \<and> waiting (active_session\<lparr>n_duped := 1\<rparr>) = [False, False]
   \<and> filter is_dcb_write_err
         (trace (snd (closeSession (active_session\<lparr>n_duped := 1\<rparr>) example_world))) = []
   \<and> fst (the (reset_session_state (active_session\<lparr>n_duped := 1\<rparr>) query_SELECT)) = 1
   \<and> waiting (snd (the (reset_session_state (active_session\<lparr>n_duped := 1\<rparr>) query_SELECT)))
       = [True, True]"
proof -
  have new: "newSession example_env example_instance matching_session example_world
     = Some (Some (active_session\<lparr>down := None\<rparr>), example_world)"
    by (simp add: newSession_def deref_service_def activation_gates_def calloc_TEE_SESSION_def
        active_session_def matching_session_def example_env_def example_instance_def
        example_session_def example_world_def)
  have run: "filter_run example_env [call_setDownstream example_down, call_routeQuery query_SELECT]
         (active_session\<lparr>down := None\<rparr>, example_world)
       = Some (active_session\<lparr>n_duped := 1\<rparr>,
               emit [down_routeQuery query_SELECT, SESSION_ROUTE_QUERY 7 query_SELECT]
                 example_world)"
    by (simp add: routeQuery_def route_single_query_def setDownstream_def clone_query_def
        packet_is_required_def required_packets_def command_defs gwbuf_clone_all_def regexec_def
        active_session_def calloc_TEE_SESSION_def emit_def example_defs)
  have rs: "reset_session_state (active_session\<lparr>n_duped := 1\<rparr>) query_SELECT
      = Some (1, snd (the (reset_session_state (active_session\<lparr>n_duped := 1\<rparr>) query_SELECT)))"
    by (simp add: reset_session_state_def query_SELECT_def Let_def)
  from waiting_never_set [OF new run] rs
  have "waiting (snd (the (reset_session_state (active_session\<lparr>n_duped := 1\<rparr>) query_SELECT)))
       = [True, True]"
    by blast
  moreover have "fst (the (reset_session_state (active_session\<lparr>n_duped := 1\<rparr>) query_SELECT)) = 1"
    using rs by (metis fst_conv option.sel)
  ultimately show ?thesis
    using waiting_never_set [OF new run] new run by (simp add: example_world_def)
qed

section \<open>Properties of the loop detector\<close>






section \<open>Properties of instance construction\<close>

text \<open>
  With a resolvable service, a parameter the filter does not know and an option it does
  not support, \<open>createInstance\<close> returns an instance; the three complaints are only
  logged. Without a service, and with an exclude pattern and a user name configured,
  it fails and releases the instance record alone.
\<close>

theorem createInstance_unsupported_counterexample:
  "createInstance example_env (Some [''bogus''])
       (Some [(''service'', ''branch_svc''), (''colour'', ''blue'')])
     = \<lparr>created = Some (tee_to 2),
        logged = [option_passed, unexpected_parameter ''colour'', unsupported_option ''bogus''],
        released = []\<rparr>
   \<and> createInstance example_env None (Some [(''exclude'', ''x''), (''user'', ''bob'')])
     = \<lparr>created = None, logged = [], released = [the_instance]\<rparr>"
  by (simp add: createInstance_def createInstance_nomatch_def params_step_def options_step_def
        strcasecmp_def tolower_def MXS_FREE_def allocated_def tee_to_def example_env_def
        REG_ICASE_def REG_EXTENDED_def)

lemma options_step_flags:
  "fst acc = fst acc' \<Longrightarrow> fst (options_step opt acc) = fst (options_step opt acc')"
  by (cases acc; cases acc') (simp add: options_step_def)

lemma options_loop_flags:
  "fst acc = fst acc' \<Longrightarrow> fst (options_loop opts acc) = fst (options_loop opts acc')"
proof (induction opts arbitrary: acc acc')
  case Nil
  then show ?case by simp
next
  case (Cons opt opts)
  from Cons.IH [OF options_step_flags [OF Cons.prems]] show ?case by simp
qed

lemma params_step_fields:
  "service (fst (params_step e p acc)) =
     (if fst p = ''service'' then service_find e (snd p) else service (fst acc))"
  "match (fst (params_step e p acc)) =
     (if fst p = ''match'' then Some (snd p) else match (fst acc))"
  "nomatch (fst (params_step e p acc)) =
     (if fst p = ''exclude'' then Some (snd p) else nomatch (fst acc))"
  by (cases p; cases acc; simp add: params_step_def split: option.splits)+

lemma params_loop_service:
  "service (fst (params_loop e ps acc)) =
     (case map snd (filter (\<lambda>p. fst p = ''service'') ps) of
        [] \<Rightarrow> service (fst acc) | vs \<Rightarrow> service_find e (last vs))"
  by (induction ps arbitrary: acc) (simp_all add: params_step_fields split: list.splits)

lemma params_loop_match:
  "match (fst (params_loop e ps acc)) =
     (case map snd (filter (\<lambda>p. fst p = ''match'') ps) of
        [] \<Rightarrow> match (fst acc) | vs \<Rightarrow> Some (last vs))"
  by (induction ps arbitrary: acc) (simp_all add: params_step_fields split: list.splits)

lemma params_loop_nomatch:
  "nomatch (fst (params_loop e ps acc)) =
     (case map snd (filter (\<lambda>p. fst p = ''exclude'') ps) of
        [] \<Rightarrow> nomatch (fst acc) | vs \<Rightarrow> Some (last vs))"
  by (induction ps arbitrary: acc) (simp_all add: params_step_fields split: list.splits)

lemma createInstance_nomatch_created:
  "created (createInstance_nomatch e cflags lg inst) = None \<longleftrightarrow>
     (case nomatch inst of None \<Rightarrow> False | Some n \<Rightarrow> fst (regcomp e n cflags) \<noteq> 0)"
  by (simp add: createInstance_nomatch_def split: option.splits prod.splits)

lemma createInstance_nomatch_released:
  "created (createInstance_nomatch e cflags lg inst) = None \<Longrightarrow>
     the_instance \<in> set (released (createInstance_nomatch e cflags lg inst))"
  by (auto simp: createInstance_nomatch_def MXS_FREE_def allocated_def
      split: option.splits prod.splits if_splits)

text \<open>
  C9, as the code has it. \<open>createInstance\<close> returns no instance exactly when the instance
  record cannot be allocated, when no service parameter is given or the last one names a
  service that is not found, when the last match pattern does not compile, or when the
  last exclude pattern does not compile (with the flags the options ask for); parameters
  and options it does not know play no part. When it fails after the allocation, the
  instance record is released.
\<close>

theorem createInstance_fails_iff:
  "(created (createInstance e options params) = None \<longleftrightarrow>
      \<not> calloc_ok e
      \<or> (case param_values params ''service'' of
            [] \<Rightarrow> True | vs \<Rightarrow> service_find e (last vs) = None)
      \<or> (case param_values params ''match'' of
            [] \<Rightarrow> False | vs \<Rightarrow> fst (regcomp e (last vs) (cflags_of options)) \<noteq> 0)
      \<or> (case param_values params ''exclude'' of
            [] \<Rightarrow> False | vs \<Rightarrow> fst (regcomp e (last vs) (cflags_of options)) \<noteq> 0))
   \<and> (calloc_ok e \<and> created (createInstance e options params) = None \<longrightarrow>
        the_instance \<in> set (released (createInstance e options params)))"
proof -
  define ps where "ps = (case params of None \<Rightarrow> [] | Some ps \<Rightarrow> ps)"
  define lg0 where "lg0 = (if options \<noteq> None then [option_passed] else [])"
  define inst0 where "inst0 = \<lparr>service = None, source = None, userName = None, match = None,
                     re = (\<lambda>_. 1), nomatch = None, nore = (\<lambda>_. 1)\<rparr>"
  obtain inst1 lg1 where r: "params_loop e ps (inst0, lg0) = (inst1, lg1)"
    by (cases "params_loop e ps (inst0, lg0)")
  then have r': "(case params of None \<Rightarrow> (inst0, lg0)
                  | Some ps \<Rightarrow> params_loop e ps (inst0, lg0)) = (inst1, lg1)"
    by (simp add: ps_def split: option.splits)
  obtain cflags lg2 where o: "(case options of None \<Rightarrow> (REG_ICASE, lg1)
                             | Some opts \<Rightarrow> options_loop opts (REG_ICASE, lg1)) = (cflags, lg2)"
    by (cases "case options of None \<Rightarrow> (REG_ICASE, lg1)
                             | Some opts \<Rightarrow> options_loop opts (REG_ICASE, lg1)")
  have cf: "cflags = cflags_of options"
  proof (cases options)
    case None
    with o show ?thesis by (simp add: cflags_of_def)
  next
    case (Some opts)
    with o have "cflags = fst (options_loop opts (REG_ICASE, lg1))" by simp
    also have "\<dots> = fst (options_loop opts (REG_ICASE, []))"
      by (rule options_loop_flags) simp
    finally show ?thesis using Some by (simp add: cflags_of_def)
  qed
  have pv: "param_values params k = map snd (filter (\<lambda>p. fst p = k) ps)" for k
    by (simp add: param_values_def ps_def)
  have sv: "service inst1 = (case param_values params ''service'' of
                               [] \<Rightarrow> None | vs \<Rightarrow> service_find e (last vs))"
    using params_loop_service [of e ps "(inst0, lg0)"] r by (simp add: pv inst0_def split: list.splits)
  have mt: "match inst1 = (case param_values params ''match'' of
                             [] \<Rightarrow> None | vs \<Rightarrow> Some (last vs))"
    using params_loop_match [of e ps "(inst0, lg0)"] r by (simp add: pv inst0_def split: list.splits)
  have nm: "nomatch inst1 = (case param_values params ''exclude'' of
                               [] \<Rightarrow> None | vs \<Rightarrow> Some (last vs))"
    using params_loop_nomatch [of e ps "(inst0, lg0)"] r by (simp add: pv inst0_def split: list.splits)
  have unf: "calloc_ok e \<Longrightarrow> createInstance e options params =
      (if service inst1 = None
       then \<lparr>created = None, logged = lg2,
             released = MXS_FREE inst1 [match_text, source_text, the_instance]\<rparr>
       else (case match inst1 of
               None \<Rightarrow> createInstance_nomatch e cflags lg2 inst1
             | Some m \<Rightarrow>
                 if fst (regcomp e m cflags) \<noteq> 0
                 then \<lparr>created = None, logged = lg2 @ [invalid_match m],
                       released = MXS_FREE inst1
                         [match_text, nomatch_text, source_text, the_instance]\<rparr>
                 else createInstance_nomatch e cflags lg2
                        (inst1\<lparr>re := snd (regcomp e m cflags)\<rparr>)))"
    apply (simp only: createInstance_def Let_def lg0_def [symmetric] inst0_def [symmetric])
    apply (simp only: r' prod.case o)
    apply (simp split: option.splits prod.splits)
    done
  have nc: "\<not> calloc_ok e \<Longrightarrow> created (createInstance e options params) = None"
    by (simp add: createInstance_def)
  show ?thesis
  proof (cases "calloc_ok e")
    case False
    with nc show ?thesis by simp
  next
    case True
    note u = unf [OF True]
    show ?thesis
    proof (cases "service inst1")
      case None
      with u True sv show ?thesis
        by (auto simp: MXS_FREE_def allocated_def split: list.splits)
    next
      case (Some svc)
      show ?thesis
      proof (cases "match inst1")
        case None
        with u True Some sv mt nm cf show ?thesis
          using createInstance_nomatch_released [of e cflags lg2 inst1]
          by (auto simp: createInstance_nomatch_created split: list.splits option.splits)
      next
        case m: (Some m)
        show ?thesis
        proof (cases "fst (regcomp e m cflags) \<noteq> 0")
          case True
          with u \<open>calloc_ok e\<close> Some m sv mt cf show ?thesis
            by (auto simp: MXS_FREE_def allocated_def split: list.splits)
        next
          case False
          with u \<open>calloc_ok e\<close> Some m sv mt nm cf show ?thesis
            using createInstance_nomatch_released
              [of e cflags lg2 "inst1\<lparr>re := snd (regcomp e m cflags)\<rparr>"]
            by (auto simp: createInstance_nomatch_created split: list.splits option.splits)
        qed
      qed
    qed
  qed
qed

theorem createInstance_fails_iff_witness:
  "calloc_ok example_env
   \<and> created (createInstance example_env None (Some [(''service'', ''nowhere'')])) = None
   \<and> the_instance
       \<in> set (released (createInstance example_env None (Some [(''service'', ''nowhere'')])))
   \<and> created (createInstance example_env None
                (Some [(''service'', ''branch_svc''), (''match'', ''('')])) = None
   \<and> created (createInstance example_env (Some [''bogus''])
                (Some [(''service'', ''branch_svc''), (''colour'', ''blue'')])) \<noteq> None"
  using createInstance_fails_iff [of example_env None "Some [(''service'', ''nowhere'')]"]
    createInstance_fails_iff [of example_env None
      "Some [(''service'', ''branch_svc''), (''match'', ''('')]"]
    createInstance_fails_iff [of example_env "Some [''bogus'']"
      "Some [(''service'', ''branch_svc''), (''colour'', ''blue'')]"]
  by (simp add: param_values_def cflags_of_def example_env_def)

section \<open>Properties of the orphan registry\<close>

text \<open>
  With every session registered once, the scan keeps the nodes whose session is not
  \<open>TO_BE_FREED\<close>, finishes all the others, and marks the quiescent sessions.
\<close>

lemma orphan_scan_distinct:
  "distinct rest \<Longrightarrow>
     orphan_scan h kept rest fin =
       (mark h rest, kept @ filter (\<lambda>p. \<not> to_be_freed h p) rest,
        rev (filter (to_be_freed h) rest) @ fin)"
proof (induction rest arbitrary: h kept fin)
  case Nil
  show ?case by (simp add: mark_def fun_eq_iff)
next
  case (Cons p rest)
  define h' where "h' = (if quiescent h p then h(p := (h p)\<lparr>state := SESSION_STATE_TO_BE_FREED\<rparr>) else h)"
  from Cons.prems have np: "p \<notin> set rest" and d: "distinct rest" by simp_all
  have same: "to_be_freed h' q = to_be_freed h q" if "q \<in> set rest" for q
    using that np by (auto simp: h'_def to_be_freed_def)
  have fl: "filter (\<lambda>q. \<not> to_be_freed h' q) rest = filter (\<lambda>q. \<not> to_be_freed h q) rest"
    "filter (to_be_freed h') rest = filter (to_be_freed h) rest"
    using same by (auto intro: filter_cong)
  have mk: "mark h' rest = mark h (p # rest)"
    using np by (auto simp: mark_def h'_def quiescent_def fun_eq_iff)
  have step: "orphan_scan h kept (p # rest) fin =
      orphan_scan h' (if to_be_freed h p then kept else kept @ [p]) rest
        (if to_be_freed h p then p # fin else fin)"
    by (simp add: h'_def quiescent_def to_be_freed_def Let_def)
  show ?case
    unfolding step Cons.IH [OF d] fl mk by simp
qed

lemma free_finished_fields:
  "trace (free_finished fs w) = trace w @ freeing fs"
  "allOrphans (free_finished fs w) = allOrphans w"
  "sessions (free_finished fs w) p =
     (if p \<in> set fs then (sessions w p)\<lparr>state := SESSION_STATE_FREE\<rparr> else sessions w p)"
  by (induction fs arbitrary: w) (auto simp: freeing_def emit_def set_session_state_def)

lemma orphan_unlink_distinct:
  assumes "distinct (allOrphans w)"
  shows "orphan_unlink w =
     (w\<lparr>sessions := mark (sessions w) (allOrphans w),
        allOrphans := filter (\<lambda>p. \<not> to_be_freed (sessions w) p) (allOrphans w),
        trace := trace w @ [spinlock_acquire orphanLock, spinlock_release orphanLock]\<rparr>,
      rev (filter (to_be_freed (sessions w)) (allOrphans w)))"
  using assms by (simp add: orphan_unlink_def emit_def orphan_scan_distinct)

lemma count_freeing:
  "count_list (freeing fs) (MXS_FREE_session s) = count_list fs s"
  "count_list (freeing fs) (router_freeSession s) = count_list fs s"
  by (induction fs) (simp_all add: freeing_def)

lemma count_list_distinct:
  "distinct xs \<Longrightarrow> count_list xs x = (if x \<in> set xs then 1 else 0)"
  by (induction xs) auto

lemma tbf_not_quiescent: "to_be_freed h p \<Longrightarrow> \<not> quiescent h p"
  by (simp add: to_be_freed_def quiescent_def)

lemma orphan_free_fields:
  assumes "distinct (allOrphans w)"
  shows "allOrphans (orphan_free w) = filter (\<lambda>p. \<not> to_be_freed (sessions w) p) (allOrphans w)"
    and "trace (orphan_free w) =
           trace w @ [spinlock_acquire orphanLock, spinlock_release orphanLock]
             @ freeing (rev (filter (to_be_freed (sessions w)) (allOrphans w)))"
    and "sessions (orphan_free w) p =
           (if p \<in> set (allOrphans w) \<and> to_be_freed (sessions w) p
            then (sessions w p)\<lparr>state := SESSION_STATE_FREE\<rparr>
            else mark (sessions w) (allOrphans w) p)"
    and "distinct (allOrphans (orphan_free w))"
  using assms
  by (auto simp: orphan_free_def orphan_unlink_distinct free_finished_fields mark_def
      dest: tbf_not_quiescent)

lemma orphan_free_frees:
  assumes "distinct (allOrphans w)"
  shows "frees s (orphan_free w) =
           frees s w + (if s \<in> set (allOrphans w) \<and> to_be_freed (sessions w) s then 1 else 0)"
proof -
  have "distinct (rev (filter (to_be_freed (sessions w)) (allOrphans w)))"
    using assms by simp
  from count_list_distinct [OF this, of s] show ?thesis
    by (simp add: frees_def orphan_free_fields(2) [OF assms] count_freeing)
qed

lemma create_orphan_fields:
  "allOrphans (create_orphan True s w) = s # allOrphans w"
  "sessions (create_orphan True s w) = sessions w"
  "trace (create_orphan True s w)
     = trace w @ [spinlock_acquire orphanLock, spinlock_release orphanLock]"
  by (simp_all add: create_orphan_def emit_def)

lemma create_orphan_registry:
  "allOrphans (create_orphan ok t w) = (if ok then t # allOrphans w else allOrphans w)"
  "sessions (create_orphan ok t w) = sessions w"
  "frees s (create_orphan ok t w) = frees s w"
  by (simp_all add: create_orphan_def emit_def frees_def)

lemma registry_run_append:
  "registry_run (xs @ ys) w = registry_run ys (registry_run xs w)"
  by (induction xs arbitrary: w) simp_all

lemma handed_once_append:
  "handed_once s (xs @ ys) w \<longleftrightarrow> handed_once s xs w \<and> handed_once s ys (registry_run xs w)"
proof (induction xs arbitrary: w)
  case Nil
  show ?case by simp
next
  case (Cons ev xs)
  show ?case by (cases ev) (simp_all add: Cons.IH)
qed

text \<open>Registered and not freed, or unlinked and freed once.\<close>

lemma registry_run_unregistered:
  "distinct (allOrphans w) \<Longrightarrow> handed_once s evs w \<Longrightarrow> s \<notin> set (allOrphans w) \<Longrightarrow>
     distinct (allOrphans (registry_run evs w)) \<and> s \<notin> set (allOrphans (registry_run evs w))
     \<and> frees s (registry_run evs w) = frees s w"
proof (induction evs arbitrary: w)
  case Nil
  then show ?case by simp
next
  case (Cons ev evs)
  show ?case
  proof (cases ev)
    case scan
    from Cons.prems have d: "distinct (allOrphans w)" by simp
    have "distinct (allOrphans (orphan_free w))" "s \<notin> set (allOrphans (orphan_free w))"
      "frees s (orphan_free w) = frees s w"
      using Cons.prems by (simp_all add: orphan_free_fields [OF d] orphan_free_frees [OF d])
    with Cons.IH [of "orphan_free w"] Cons.prems scan show ?thesis by simp
  next
    case (hand_over ok t)
    with Cons.prems have "distinct (allOrphans (create_orphan ok t w))"
      "s \<notin> set (allOrphans (create_orphan ok t w))"
      by (auto simp: create_orphan_registry)
    with Cons.IH [of "create_orphan ok t w"] Cons.prems hand_over show ?thesis
      by (simp add: create_orphan_registry)
  next
    case (outside f)
    with Cons.IH [of "f w"] Cons.prems show ?thesis by simp
  qed
qed

lemma registry_run_registered:
  "distinct (allOrphans w) \<Longrightarrow> handed_once s evs w \<Longrightarrow> s \<in> set (allOrphans w) \<Longrightarrow>
     distinct (allOrphans (registry_run evs w))
     \<and> (s \<in> set (allOrphans (registry_run evs w)) \<and> frees s (registry_run evs w) = frees s w
        \<or> s \<notin> set (allOrphans (registry_run evs w))
          \<and> frees s (registry_run evs w) = frees s w + 1)"
proof (induction evs arbitrary: w)
  case Nil
  then show ?case by simp
next
  case (Cons ev evs)
  show ?case
  proof (cases ev)
    case scan
    from Cons.prems have d: "distinct (allOrphans w)" by simp
    note d' = orphan_free_fields(4) [OF d]
    from Cons.prems scan have h: "handed_once s evs (orphan_free w)" by simp
    show ?thesis
    proof (cases "to_be_freed (sessions w) s")
      case True
      with Cons.prems have "s \<notin> set (allOrphans (orphan_free w))"
        "frees s (orphan_free w) = frees s w + 1"
        by (simp_all add: orphan_free_fields(1) [OF d] orphan_free_frees [OF d])
      with registry_run_unregistered [OF d' h] scan show ?thesis by simp
    next
      case False
      with Cons.prems have "s \<in> set (allOrphans (orphan_free w))"
        "frees s (orphan_free w) = frees s w"
        by (simp_all add: orphan_free_fields(1) [OF d] orphan_free_frees [OF d])
      with Cons.IH [OF d' h] scan show ?thesis by simp
    qed
  next
    case (hand_over ok t)
    with Cons.prems have "distinct (allOrphans (create_orphan ok t w))"
      "s \<in> set (allOrphans (create_orphan ok t w))"
      by (auto simp: create_orphan_registry)
    with Cons.IH [of "create_orphan ok t w"] Cons.prems hand_over show ?thesis
      by (simp add: create_orphan_registry)
  next
    case (outside f)
    with Cons.IH [of "f w"] Cons.prems show ?thesis by simp
  qed
qed

text \<open>A marked session that is left alone is freed by the next scan.\<close>

lemma registry_run_marked:
  "distinct (allOrphans w) \<Longrightarrow> handed_once s evs w \<Longrightarrow> undisturbed s evs w \<Longrightarrow>
   s \<in> set (allOrphans w) \<and> to_be_freed (sessions w) s \<and> frees s w = k
     \<or> s \<notin> set (allOrphans w) \<and> frees s w = k + 1 \<Longrightarrow>
   distinct (allOrphans (registry_run evs w))
   \<and> (s \<in> set (allOrphans (registry_run evs w)) \<and> to_be_freed (sessions (registry_run evs w)) s
        \<and> frees s (registry_run evs w) = k
      \<or> s \<notin> set (allOrphans (registry_run evs w)) \<and> frees s (registry_run evs w) = k + 1)"
proof (induction evs arbitrary: w)
  case Nil
  then show ?case by simp
next
  case (Cons ev evs)
  show ?case
  proof (cases ev)
    case scan
    from Cons.prems have d: "distinct (allOrphans w)" by simp
    note d' = orphan_free_fields(4) [OF d]
    from Cons.prems scan have h: "handed_once s evs (orphan_free w)"
      and u: "undisturbed s evs (orphan_free w)" by simp_all
    from Cons.prems(4) have "s \<notin> set (allOrphans (orphan_free w)) \<and> frees s (orphan_free w) = k + 1"
      by (auto simp: orphan_free_fields(1) [OF d] orphan_free_frees [OF d])
    with Cons.IH [OF d' h u] scan show ?thesis by simp
  next
    case (hand_over ok t)
    with Cons.prems have "distinct (allOrphans (create_orphan ok t w))"
      "handed_once s evs (create_orphan ok t w)" "undisturbed s evs (create_orphan ok t w)"
      by (auto simp: create_orphan_registry)
    moreover from Cons.prems(2,4) hand_over
    have "s \<in> set (allOrphans (create_orphan ok t w))
            \<and> to_be_freed (sessions (create_orphan ok t w)) s \<and> frees s (create_orphan ok t w) = k
          \<or> s \<notin> set (allOrphans (create_orphan ok t w)) \<and> frees s (create_orphan ok t w) = k + 1"
      by (auto simp: create_orphan_registry to_be_freed_def)
    ultimately show ?thesis using Cons.IH [of "create_orphan ok t w"] hand_over by simp
  next
    case (outside f)
    with Cons.prems have "distinct (allOrphans (f w))" "handed_once s evs (f w)"
      "undisturbed s evs (f w)"
      "s \<in> set (allOrphans (f w)) \<and> to_be_freed (sessions (f w)) s \<and> frees s (f w) = k
          \<or> s \<notin> set (allOrphans (f w)) \<and> frees s (f w) = k + 1"
      by (auto simp: to_be_freed_def)
    with Cons.IH [of "f w"] outside show ?thesis by simp
  qed
qed

text \<open>
  C7. Let a stopping branch session be handed to the registry, in which every session is
  registered once and this one was not yet. Then it is registered once. In every scan of
  such a registry, wherever the nodes stand in the list: the finished nodes are exactly
  the registered sessions that were \<open>TO_BE_FREED\<close> when the scan began, each once, and
  they are out of the registry when the lock is released; the sessions that become
  \<open>TO_BE_FREED\<close> are exactly the registered sessions that were stopping with no
  reference and no client DCB; the router's free hook and the release of the memory
  come, node by node, after the release of the lock; and the memory of a session is
  released by the scan once if it was registered and \<open>TO_BE_FREED\<close>, and not otherwise.
  In every run of scans, further sessions handed over and steps outside the registry, the
  session is either still registered and not freed, or unlinked and freed once: it is
  freed at most once. And when at some scan of the run the session is stopping with no
  reference and no client DCB, and its record is left alone until a further scan, then
  after that scan, and whatever follows, it is unlinked and was freed exactly once.
\<close>

theorem orphan_reclaimed_once:
  assumes "distinct (allOrphans w0)" and "s \<notin> set (allOrphans w0)"
    and "state (sessions w0 s) = SESSION_STATE_STOPPING"
    and "w = create_orphan True s w0"
  shows "distinct (allOrphans w) \<and> s \<in> set (allOrphans w)
     \<and> (\<forall>v v2 fin. distinct (allOrphans v) \<and> orphan_unlink v = (v2, fin) \<longrightarrow>
           distinct fin
           \<and> set fin = {p \<in> set (allOrphans v). state (sessions v p) = SESSION_STATE_TO_BE_FREED}
           \<and> allOrphans v2
               = filter (\<lambda>p. state (sessions v p) \<noteq> SESSION_STATE_TO_BE_FREED) (allOrphans v)
           \<and> (\<forall>p. sessions v2 p =
                 (if p \<in> set (allOrphans v) \<and> state (sessions v p) = SESSION_STATE_STOPPING
                     \<and> refcount (sessions v p) = 0 \<and> ses_client_dcb (sessions v p) = None
                  then (sessions v p)\<lparr>state := SESSION_STATE_TO_BE_FREED\<rparr>
                  else sessions v p))
           \<and> trace v2 = trace v @ [spinlock_acquire orphanLock, spinlock_release orphanLock]
           \<and> orphan_free v = free_finished fin v2
           \<and> trace (orphan_free v) = trace v2 @ freeing fin
           \<and> (\<forall>p. frees p (orphan_free v) =
                 frees p v + (if p \<in> set (allOrphans v)
                                 \<and> state (sessions v p) = SESSION_STATE_TO_BE_FREED
                              then 1 else 0)))
     \<and> (\<forall>evs. handed_once s evs w \<longrightarrow>
           s \<in> set (allOrphans (registry_run evs w)) \<and> frees s (registry_run evs w) = frees s w
           \<or> s \<notin> set (allOrphans (registry_run evs w))
             \<and> frees s (registry_run evs w) = frees s w + 1)
     \<and> (\<forall>evs1 evs2 evs3.
           handed_once s (evs1 @ scan # evs2 @ scan # evs3) w
           \<and> state (sessions (registry_run evs1 w) s) = SESSION_STATE_STOPPING
           \<and> refcount (sessions (registry_run evs1 w) s) = 0
           \<and> ses_client_dcb (sessions (registry_run evs1 w) s) = None
           \<and> undisturbed s evs2 (registry_run (evs1 @ [scan]) w) \<longrightarrow>
           frees s (registry_run (evs1 @ scan # evs2 @ scan # evs3) w) = frees s w + 1
           \<and> s \<notin> set (allOrphans (registry_run (evs1 @ scan # evs2 @ scan # evs3) w)))"
proof (intro conjI)
  show d: "distinct (allOrphans w)" and m: "s \<in> set (allOrphans w)"
    using assms by (simp_all add: create_orphan_fields)
  show "\<forall>v v2 fin. distinct (allOrphans v) \<and> orphan_unlink v = (v2, fin) \<longrightarrow>
           distinct fin
           \<and> set fin = {p \<in> set (allOrphans v). state (sessions v p) = SESSION_STATE_TO_BE_FREED}
           \<and> allOrphans v2
               = filter (\<lambda>p. state (sessions v p) \<noteq> SESSION_STATE_TO_BE_FREED) (allOrphans v)
           \<and> (\<forall>p. sessions v2 p =
                 (if p \<in> set (allOrphans v) \<and> state (sessions v p) = SESSION_STATE_STOPPING
                     \<and> refcount (sessions v p) = 0 \<and> ses_client_dcb (sessions v p) = None
                  then (sessions v p)\<lparr>state := SESSION_STATE_TO_BE_FREED\<rparr>
                  else sessions v p))
           \<and> trace v2 = trace v @ [spinlock_acquire orphanLock, spinlock_release orphanLock]
           \<and> orphan_free v = free_finished fin v2
           \<and> trace (orphan_free v) = trace v2 @ freeing fin
           \<and> (\<forall>p. frees p (orphan_free v) =
                 frees p v + (if p \<in> set (allOrphans v)
                                 \<and> state (sessions v p) = SESSION_STATE_TO_BE_FREED
                              then 1 else 0))"
  proof (intro allI impI, elim conjE)
    fix v v2 fin
    assume dv: "distinct (allOrphans v)" and u: "orphan_unlink v = (v2, fin)"
    from u orphan_unlink_distinct [OF dv]
    have v2: "v2 = v\<lparr>sessions := mark (sessions v) (allOrphans v),
        allOrphans := filter (\<lambda>p. \<not> to_be_freed (sessions v) p) (allOrphans v),
        trace := trace v @ [spinlock_acquire orphanLock, spinlock_release orphanLock]\<rparr>"
      and fin: "fin = rev (filter (to_be_freed (sessions v)) (allOrphans v))"
      by simp_all
    have 1: "distinct fin" using dv by (simp add: fin)
    have 2: "set fin = {p \<in> set (allOrphans v). state (sessions v p) = SESSION_STATE_TO_BE_FREED}"
      by (auto simp: fin to_be_freed_def)
    have 3: "allOrphans v2
               = filter (\<lambda>p. state (sessions v p) \<noteq> SESSION_STATE_TO_BE_FREED) (allOrphans v)"
      by (simp add: v2 to_be_freed_def)
    have 4: "\<forall>p. sessions v2 p =
                 (if p \<in> set (allOrphans v) \<and> state (sessions v p) = SESSION_STATE_STOPPING
                     \<and> refcount (sessions v p) = 0 \<and> ses_client_dcb (sessions v p) = None
                  then (sessions v p)\<lparr>state := SESSION_STATE_TO_BE_FREED\<rparr>
                  else sessions v p)"
      by (simp add: v2 mark_def quiescent_def)
    have 5: "trace v2 = trace v @ [spinlock_acquire orphanLock, spinlock_release orphanLock]"
      by (simp add: v2)
    have 6: "orphan_free v = free_finished fin v2"
      by (simp add: orphan_free_def u)
    have 7: "trace (orphan_free v) = trace v2 @ freeing fin"
      by (simp add: 6 free_finished_fields)
    have 8: "\<forall>p. frees p (orphan_free v) =
                 frees p v + (if p \<in> set (allOrphans v)
                                 \<and> state (sessions v p) = SESSION_STATE_TO_BE_FREED
                              then 1 else 0)"
      by (simp add: orphan_free_frees [OF dv] to_be_freed_def)
    from 1 2 3 4 5 6 7 8
    show "distinct fin
           \<and> set fin = {p \<in> set (allOrphans v). state (sessions v p) = SESSION_STATE_TO_BE_FREED}
           \<and> allOrphans v2
               = filter (\<lambda>p. state (sessions v p) \<noteq> SESSION_STATE_TO_BE_FREED) (allOrphans v)
           \<and> (\<forall>p. sessions v2 p =
                 (if p \<in> set (allOrphans v) \<and> state (sessions v p) = SESSION_STATE_STOPPING
                     \<and> refcount (sessions v p) = 0 \<and> ses_client_dcb (sessions v p) = None
                  then (sessions v p)\<lparr>state := SESSION_STATE_TO_BE_FREED\<rparr>
                  else sessions v p))
           \<and> trace v2 = trace v @ [spinlock_acquire orphanLock, spinlock_release orphanLock]
           \<and> orphan_free v = free_finished fin v2
           \<and> trace (orphan_free v) = trace v2 @ freeing fin
           \<and> (\<forall>p. frees p (orphan_free v) =
                 frees p v + (if p \<in> set (allOrphans v)
                                 \<and> state (sessions v p) = SESSION_STATE_TO_BE_FREED
                              then 1 else 0))"
      by (intro conjI)
  qed
  show "\<forall>evs. handed_once s evs w \<longrightarrow>
           s \<in> set (allOrphans (registry_run evs w)) \<and> frees s (registry_run evs w) = frees s w
           \<or> s \<notin> set (allOrphans (registry_run evs w))
             \<and> frees s (registry_run evs w) = frees s w + 1"
    using registry_run_registered [OF d _ m] by blast
  show "\<forall>evs1 evs2 evs3.
           handed_once s (evs1 @ scan # evs2 @ scan # evs3) w
           \<and> state (sessions (registry_run evs1 w) s) = SESSION_STATE_STOPPING
           \<and> refcount (sessions (registry_run evs1 w) s) = 0
           \<and> ses_client_dcb (sessions (registry_run evs1 w) s) = None
           \<and> undisturbed s evs2 (registry_run (evs1 @ [scan]) w) \<longrightarrow>
           frees s (registry_run (evs1 @ scan # evs2 @ scan # evs3) w) = frees s w + 1
           \<and> s \<notin> set (allOrphans (registry_run (evs1 @ scan # evs2 @ scan # evs3) w))"
  proof (intro allI impI, elim conjE)
    fix evs1 evs2 evs3
    define w1 where "w1 = registry_run evs1 w"
    define w2 where "w2 = orphan_free w1"
    define w3 where "w3 = registry_run evs2 w2"
    define w4 where "w4 = orphan_free w3"
    assume h: "handed_once s (evs1 @ scan # evs2 @ scan # evs3) w"
      and st: "state (sessions (registry_run evs1 w) s) = SESSION_STATE_STOPPING"
      and rc: "refcount (sessions (registry_run evs1 w) s) = 0"
      and cd: "ses_client_dcb (sessions (registry_run evs1 w) s) = None"
      and ud: "undisturbed s evs2 (registry_run (evs1 @ [scan]) w)"
    from h have h1: "handed_once s evs1 w" and h2: "handed_once s evs2 w2"
      and h3: "handed_once s evs3 w4"
      by (simp_all add: handed_once_append w1_def w2_def w3_def w4_def)
    from ud have u2: "undisturbed s evs2 w2"
      by (simp add: registry_run_append w1_def w2_def)
    from st rc cd have q: "quiescent (sessions w1) s"
      by (simp add: quiescent_def w1_def)
    then have nt: "\<not> to_be_freed (sessions w1) s"
      by (simp add: quiescent_def to_be_freed_def)
    from registry_run_registered [OF d h1 m]
    have d1: "distinct (allOrphans w1)"
      and c1: "s \<in> set (allOrphans w1) \<and> frees s w1 = frees s w
               \<or> s \<notin> set (allOrphans w1) \<and> frees s w1 = frees s w + 1"
      by (simp_all add: w1_def)
    have d2: "distinct (allOrphans w2)"
      unfolding w2_def by (rule orphan_free_fields(4) [OF d1])
    from c1 q nt
    have c2: "s \<in> set (allOrphans w2) \<and> to_be_freed (sessions w2) s \<and> frees s w2 = frees s w
              \<or> s \<notin> set (allOrphans w2) \<and> frees s w2 = frees s w + 1"
      unfolding w2_def
      by (auto simp: orphan_free_fields(1,3) [OF d1] orphan_free_frees [OF d1] mark_def
          to_be_freed_def)
    from registry_run_marked [OF d2 h2 u2 c2]
    have d3: "distinct (allOrphans w3)"
      and c3: "s \<in> set (allOrphans w3) \<and> to_be_freed (sessions w3) s \<and> frees s w3 = frees s w
               \<or> s \<notin> set (allOrphans w3) \<and> frees s w3 = frees s w + 1"
      by (simp_all add: w3_def)
    have d4: "distinct (allOrphans w4)"
      unfolding w4_def by (rule orphan_free_fields(4) [OF d3])
    from c3 have c4: "s \<notin> set (allOrphans w4)" "frees s w4 = frees s w + 1"
      unfolding w4_def
      by (auto simp: orphan_free_fields(1) [OF d3] orphan_free_frees [OF d3])
    have r: "registry_run (evs1 @ scan # evs2 @ scan # evs3) w = registry_run evs3 w4"
      by (simp add: registry_run_append w1_def w2_def w3_def w4_def)
    from registry_run_unregistered [OF d4 h3 c4(1)] c4(2)
    show "frees s (registry_run (evs1 @ scan # evs2 @ scan # evs3) w) = frees s w + 1
           \<and> s \<notin> set (allOrphans (registry_run (evs1 @ scan # evs2 @ scan # evs3) w))"
      unfolding r by simp
  qed
qed

theorem orphan_reclaimed_once_witness:
  "distinct (allOrphans busy_world) \<and> 7 \<notin> set (allOrphans busy_world)
   \<and> state (sessions busy_world 7) = SESSION_STATE_STOPPING
   \<and> handed_once 7
        ([hand_over True 8, scan, outside (quiesce 7)] @ scan # [outside (quiesce 9)] @ scan # [scan])
        (create_orphan True 7 busy_world)
   \<and> allOrphans (registry_run [hand_over True 8, scan, outside (quiesce 7)]
                    (create_orphan True 7 busy_world)) = [8, 7]
   \<and> state (sessions (registry_run [hand_over True 8, scan, outside (quiesce 7)]
                         (create_orphan True 7 busy_world)) 7) = SESSION_STATE_STOPPING
   \<and> refcount (sessions (registry_run [hand_over True 8, scan, outside (quiesce 7)]
                            (create_orphan True 7 busy_world)) 7) = 0
   \<and> ses_client_dcb (sessions (registry_run [hand_over True 8, scan, outside (quiesce 7)]
                                  (create_orphan True 7 busy_world)) 7) = None
   \<and> undisturbed 7 [outside (quiesce 9)]
        (registry_run ([hand_over True 8, scan, outside (quiesce 7)] @ [scan])
           (create_orphan True 7 busy_world))
   \<and> frees 7 (registry_run
                ([hand_over True 8, scan, outside (quiesce 7)] @ scan # [outside (quiesce 9)]
                   @ scan # [scan])
                (create_orphan True 7 busy_world)) = 1
   \<and> allOrphans (registry_run
                ([hand_over True 8, scan, outside (quiesce 7)] @ scan # [outside (quiesce 9)]
                   @ scan # [scan])
                (create_orphan True 7 busy_world)) = [8]
   \<and> trace (registry_run
                ([hand_over True 8, scan, outside (quiesce 7)] @ scan # [outside (quiesce 9)]
                   @ scan # [scan])
                (create_orphan True 7 busy_world))
       = [spinlock_acquire orphanLock, spinlock_release orphanLock,
          spinlock_acquire orphanLock, spinlock_release orphanLock,
          spinlock_acquire orphanLock, spinlock_release orphanLock,
          spinlock_acquire orphanLock, spinlock_release orphanLock,
          spinlock_acquire orphanLock, spinlock_release orphanLock,
          router_freeSession 7, MXS_FREE_session 7,
          spinlock_acquire orphanLock, spinlock_release orphanLock]"
proof -
  define w where "w = create_orphan True 7 busy_world"
  define evs1 where "evs1 = [hand_over True 8, scan, outside (quiesce 7)]"
  define evs2 where "evs2 = [outside (quiesce 9)]"
  define evs3 where "evs3 = [scan]"
  note ev = orphan_free_def orphan_unlink_def create_orphan_def quiesce_def emit_def Let_def
    set_session_state_def frees_def busy_world_def example_world_def example_session_def
  have h: "distinct (allOrphans busy_world)" "7 \<notin> set (allOrphans busy_world)"
    "state (sessions busy_world 7) = SESSION_STATE_STOPPING"
    by (simp_all add: busy_world_def example_world_def)
  have w1: "allOrphans (registry_run evs1 w) = [8, 7]"
    "state (sessions (registry_run evs1 w) 7) = SESSION_STATE_STOPPING"
    "refcount (sessions (registry_run evs1 w) 7) = 0"
    "ses_client_dcb (sessions (registry_run evs1 w) 7) = None"
    by (simp_all add: w_def evs1_def ev)
  have ho: "handed_once 7 (evs1 @ scan # evs2 @ scan # evs3) w"
    by (simp add: w_def evs1_def evs2_def evs3_def ev)
  have ud: "undisturbed 7 evs2 (registry_run (evs1 @ [scan]) w)"
    by (simp add: w_def evs1_def evs2_def ev)
  have z: "frees 7 w = 0"
    by (simp add: w_def ev)
  have t: "allOrphans (registry_run (evs1 @ scan # evs2 @ scan # evs3) w) = [8]"
    "trace (registry_run (evs1 @ scan # evs2 @ scan # evs3) w)
       = [spinlock_acquire orphanLock, spinlock_release orphanLock,
          spinlock_acquire orphanLock, spinlock_release orphanLock,
          spinlock_acquire orphanLock, spinlock_release orphanLock,
          spinlock_acquire orphanLock, spinlock_release orphanLock,
          spinlock_acquire orphanLock, spinlock_release orphanLock,
          router_freeSession 7, MXS_FREE_session 7,
          spinlock_acquire orphanLock, spinlock_release orphanLock]"
    by (simp_all add: w_def evs1_def evs2_def evs3_def ev)
  from orphan_reclaimed_once [OF h w_def] ho w1(2-4) ud
  have "frees 7 (registry_run (evs1 @ scan # evs2 @ scan # evs3) w) = frees 7 w + 1"
    by blast
  with z have f: "frees 7 (registry_run (evs1 @ scan # evs2 @ scan # evs3) w) = 1" by simp
  from h ho w1 ud f t show ?thesis
    unfolding w_def evs1_def evs2_def evs3_def by (intro conjI)
qed

end
